theory Spec2Isabelle
  imports Complex_Main
begin

section \<open>Tokens\<close>

text \<open>
  The enumeration \<^verbatim>\<open>TokenType\<close> and the dataclass \<^verbatim>\<open>Token\<close> of \<^verbatim>\<open>main.py\<close>.
  The fields of a token are \<^verbatim>\<open>type\<close>, \<^verbatim>\<open>value\<close>, \<^verbatim>\<open>line\<close> and \<^verbatim>\<open>column\<close>; they carry the
  prefix \<open>t\<close> here, because \<^verbatim>\<open>value\<close> is a command of Isabelle and \<^verbatim>\<open>line\<close> and
  \<^verbatim>\<open>column\<close> are fields of the lexer as well.
\<close>

datatype TokenType =
    FUNCTION | EXTERN | IF | THEN | ELSE | FOR | IN
  | INTEGER | FLOAT | IDENTIFIER
  | PLUS | MINUS | MULTIPLY | DIVIDE | MODULO | POWER
  | LESS | GREATER | EQUAL | NOT_EQUAL
  | LEFT_PAREN | RIGHT_PAREN | COMMA | SEMICOLON
  | EOF | UNKNOWN

text \<open>\<^verbatim>\<open>token_type.name\<close>: the name of the member of the enumeration.\<close>

fun name :: "TokenType \<Rightarrow> string" where
  "name FUNCTION = ''FUNCTION''"
| "name EXTERN = ''EXTERN''"
| "name IF = ''IF''"
| "name THEN = ''THEN''"
| "name ELSE = ''ELSE''"
| "name FOR = ''FOR''"
| "name IN = ''IN''"
| "name INTEGER = ''INTEGER''"
| "name FLOAT = ''FLOAT''"
| "name IDENTIFIER = ''IDENTIFIER''"
| "name PLUS = ''PLUS''"
| "name MINUS = ''MINUS''"
| "name MULTIPLY = ''MULTIPLY''"
| "name DIVIDE = ''DIVIDE''"
| "name MODULO = ''MODULO''"
| "name POWER = ''POWER''"
| "name LESS = ''LESS''"
| "name GREATER = ''GREATER''"
| "name EQUAL = ''EQUAL''"
| "name NOT_EQUAL = ''NOT_EQUAL''"
| "name LEFT_PAREN = ''LEFT_PAREN''"
| "name RIGHT_PAREN = ''RIGHT_PAREN''"
| "name COMMA = ''COMMA''"
| "name SEMICOLON = ''SEMICOLON''"
| "name EOF = ''EOF''"
| "name UNKNOWN = ''UNKNOWN''"

record Token =
  ttype :: TokenType
  tvalue :: string
  tline :: int
  tcolumn :: int

section \<open>Characters and strings of Python\<close>

text \<open>
  A Python string is a sequence of code points, and a character is a string of length
  one. The model has the code points 0 to 255 (the type \<^typ>\<open>char\<close>), so a source text is
  a \<^typ>\<open>string\<close>, and the predicates \<^verbatim>\<open>str.isspace\<close>, \<^verbatim>\<open>str.isalpha\<close>, \<^verbatim>\<open>str.isdigit\<close>
  and \<^verbatim>\<open>str.isalnum\<close> are those of the Unicode character database on that range.
\<close>

definition code :: "char \<Rightarrow> nat" where
  "code c = of_char c"

definition isspace :: "char \<Rightarrow> bool" where
  "isspace c = (let n = code c in
     (9 \<le> n \<and> n \<le> 13) \<or> (28 \<le> n \<and> n \<le> 32) \<or> n = 133 \<or> n = 160)"

definition isalpha :: "char \<Rightarrow> bool" where
  "isalpha c = (let n = code c in
     (65 \<le> n \<and> n \<le> 90) \<or> (97 \<le> n \<and> n \<le> 122) \<or> n = 170 \<or> n = 181 \<or> n = 186
     \<or> (192 \<le> n \<and> n \<le> 214) \<or> (216 \<le> n \<and> n \<le> 246) \<or> (248 \<le> n \<and> n \<le> 255))"

definition isdigit :: "char \<Rightarrow> bool" where
  "isdigit c = (let n = code c in (48 \<le> n \<and> n \<le> 57) \<or> n = 178 \<or> n = 179 \<or> n = 185)"

definition isnumeric :: "char \<Rightarrow> bool" where
  "isnumeric c = (let n = code c in isdigit c \<or> (188 \<le> n \<and> n \<le> 190))"

definition isalnum :: "char \<Rightarrow> bool" where
  "isalnum c = (isalpha c \<or> isdigit c \<or> isnumeric c)"

text \<open>
  The methods of \<^verbatim>\<open>str\<close>: true when the string is not empty and every character of it
  is in the class. \<^verbatim>\<open>peek\<close> returns the empty string at the end of the source, and
  \<^verbatim>\<open>''.isdigit()\<close> is false.
\<close>

definition str_isspace :: "string \<Rightarrow> bool" where
  "str_isspace s = (s \<noteq> [] \<and> list_all isspace s)"

definition str_isalpha :: "string \<Rightarrow> bool" where
  "str_isalpha s = (s \<noteq> [] \<and> list_all isalpha s)"

definition str_isdigit :: "string \<Rightarrow> bool" where
  "str_isdigit s = (s \<noteq> [] \<and> list_all isdigit s)"

definition str_isalnum :: "string \<Rightarrow> bool" where
  "str_isalnum s = (s \<noteq> [] \<and> list_all isalnum s)"

text \<open>
  \<^verbatim>\<open>s[a:b]\<close>: an index below zero counts from the end, and both indices are clipped to
  the string.
\<close>

definition clip :: "string \<Rightarrow> int \<Rightarrow> nat" where
  "clip s i = (let n = int (length s); j = (if i < 0 then n + i else i)
     in nat (max 0 (min n j)))"

definition slice :: "string \<Rightarrow> int \<Rightarrow> int \<Rightarrow> string" where
  "slice s a b = take (clip s b - clip s a) (drop (clip s a) s)"

datatype error = IndexError | ValueError | ZeroDivisionError | OverflowError | TypeError
  | Unmodelled

section \<open>The lexer\<close>

text \<open>
  The attributes that \<^verbatim>\<open>Lexer.__init__\<close> sets. The two dictionaries and the list of
  built-in functions are attributes of the object, so they are fields of the state
  (\<^verbatim>\<open>keywords\<close> is the field \<open>keywords_dict\<close>: the name is reserved in a theory header).
\<close>

record Lexer =
  source :: string
  position :: nat
  line :: int
  column :: int
  tokens :: "Token list"
  keywords_dict :: "string \<rightharpoonup> TokenType"
  built_in_functions :: "string list"
  single_char_tokens :: "string \<rightharpoonup> TokenType"

definition keywords_init :: "string \<rightharpoonup> TokenType" where
  "keywords_init = map_of
     [(''def'', FUNCTION), (''extern'', EXTERN), (''if'', IF), (''then'', THEN),
      (''else'', ELSE), (''for'', FOR), (''in'', IN)]"

definition single_char_tokens_init :: "string \<rightharpoonup> TokenType" where
  "single_char_tokens_init = map_of
     [(''+'', PLUS), (''-'', MINUS), (''*'', MULTIPLY), (''/'', DIVIDE), (''%'', MODULO),
      (''^'', POWER), (''<'', LESS), (''>'', GREATER), (''='', EQUAL), (''('', LEFT_PAREN),
      ('')'', RIGHT_PAREN), ('','', COMMA), ('';'', SEMICOLON)]"

definition Lexer_init :: "string \<Rightarrow> Lexer" where
  "Lexer_init src =
     \<lparr>source = src, position = 0, line = 1, column = 1, tokens = [],
      keywords_dict = keywords_init,
      built_in_functions = [''sin'', ''cos'', ''tan'', ''sqrt'', ''ln'', ''exp''],
      single_char_tokens = single_char_tokens_init\<rparr>"

definition is_at_end :: "Lexer \<Rightarrow> bool" where
  "is_at_end L = (position L \<ge> length (source L))"

text \<open>
  \<^verbatim>\<open>advance\<close> reads \<^verbatim>\<open>self.source[self.position]\<close>, which raises \<^verbatim>\<open>IndexError\<close> at the end
  of the source. The character it returns is a string of length one.
\<close>

definition newline :: string where
  "newline = [CHR 0x0A]"

definition advance :: "Lexer \<Rightarrow> error + string \<times> Lexer" where
  "advance L =
     (if position L < length (source L) then
        (let char = [source L ! position L];
             L1 = L\<lparr>position := position L + 1, column := column L + 1\<rparr>;
             L2 = (if char = newline then L1\<lparr>line := line L1 + 1, column := 1\<rparr> else L1)
         in Inr (char, L2))
      else Inl IndexError)"

definition peek :: "Lexer \<Rightarrow> string" where
  "peek L = (if is_at_end L then [] else [source L ! position L])"

definition peek_next :: "Lexer \<Rightarrow> string" where
  "peek_next L =
     (if position L + 1 \<ge> length (source L) then [] else [source L ! (position L + 1)])"

text \<open>\<^verbatim>\<open>match\<close> returns whether it consumed the expected character, and the state.\<close>

definition match :: "Lexer \<Rightarrow> string \<Rightarrow> bool \<times> Lexer" where
  "match L expected =
     (if is_at_end L \<or> [source L ! position L] \<noteq> expected then (False, L)
      else (True, L\<lparr>position := position L + 1, column := column L + 1\<rparr>))"

definition add_token :: "Lexer \<Rightarrow> TokenType \<Rightarrow> string \<Rightarrow> Lexer" where
  "add_token L token_type v =
     (let val = (if v = [] then name token_type else v)
      in L\<lparr>tokens := tokens L @
            [\<lparr>ttype = token_type, tvalue = val, tline = line L,
              tcolumn = column L - int (length val)\<rparr>]\<rparr>)"

text \<open>
  The loop of a comment:
  \<^verbatim>\<open>while self.peek() != '\n' and not self.is_at_end(): self.advance()\<close>.
\<close>

function comment_loop :: "Lexer \<Rightarrow> error + Lexer" where
  "comment_loop L =
     (if peek L \<noteq> newline \<and> \<not> is_at_end L then
        (case advance L of Inl e \<Rightarrow> Inl e | Inr (c, L') \<Rightarrow> comment_loop L')
      else Inr L)"
  by pat_completeness auto
termination
  by (relation "measure (\<lambda>L. length (source L) - position L)")
    (auto simp: advance_def is_at_end_def Let_def split: if_splits)

text \<open>
  The loop of \<^verbatim>\<open>identifier\<close>, and \<^verbatim>\<open>identifier\<close> itself (primed: the name is reserved).
\<close>

function identifier_loop :: "Lexer \<Rightarrow> error + Lexer" where
  "identifier_loop L =
     (if \<not> is_at_end L \<and> (str_isalnum (peek L) \<or> peek L = ''_'') then
        (case advance L of Inl e \<Rightarrow> Inl e | Inr (c, L') \<Rightarrow> identifier_loop L')
      else Inr L)"
  by pat_completeness auto
termination
  by (relation "measure (\<lambda>L. length (source L) - position L)")
    (auto simp: advance_def is_at_end_def Let_def split: if_splits)

definition identifier' :: "Lexer \<Rightarrow> error + Lexer" where
  "identifier' L0 =
     (let start_position = int (position L0) - 1;
          start_column = column L0 - 1
      in case identifier_loop L0 of
           Inl e \<Rightarrow> Inl e
         | Inr L \<Rightarrow>
             (let ident = slice (source L) start_position (int (position L))
              in case keywords_dict L ident of
                   Some kw \<Rightarrow> Inr (add_token L kw ident)
                 | None \<Rightarrow> Inr (add_token L IDENTIFIER ident)))"

text \<open>The loop of \<^verbatim>\<open>number\<close>, with its flag \<^verbatim>\<open>has_decimal\<close>, and \<^verbatim>\<open>number\<close>.\<close>

function number_loop :: "Lexer \<Rightarrow> bool \<Rightarrow> error + Lexer \<times> bool" where
  "number_loop L has_decimal =
     (if \<not> is_at_end L \<and> (str_isdigit (peek L) \<or> (peek L = ''.'' \<and> \<not> has_decimal)) then
        (let has_decimal' = (if peek L = ''.'' then True else has_decimal)
         in case advance L of
              Inl e \<Rightarrow> Inl e
            | Inr (c, L') \<Rightarrow> number_loop L' has_decimal')
      else Inr (L, has_decimal))"
  by pat_completeness auto
termination
  by (relation "measure (\<lambda>(L, h). length (source L) - position L)")
    (auto simp: advance_def is_at_end_def Let_def split: if_splits)

definition number :: "Lexer \<Rightarrow> string \<Rightarrow> error + Lexer" where
  "number L0 first_char =
     (let start_position = int (position L0) - 1;
          start_column = column L0 - 1
      in case number_loop L0 (first_char = ''.'') of
           Inl e \<Rightarrow> Inl e
         | Inr (L, has_decimal) \<Rightarrow>
             (let number_str = slice (source L) start_position (int (position L))
              in if has_decimal then Inr (add_token L FLOAT number_str)
                 else Inr (add_token L INTEGER number_str)))"

text \<open>
  \<^verbatim>\<open>scan_token\<close>. The test \<^verbatim>\<open>char == '!' and self.match('=')\<close> calls \<^verbatim>\<open>match\<close> only when
  the character is \<^verbatim>\<open>!\<close>.
\<close>

definition scan_token :: "Lexer \<Rightarrow> error + Lexer" where
  "scan_token L0 =
     (case advance L0 of
        Inl e \<Rightarrow> Inl e
      | Inr (char, L) \<Rightarrow>
          if str_isspace char then Inr L
          else if char = ''#'' then comment_loop L
          else (case single_char_tokens L char of
                  Some ty \<Rightarrow>
                    (if char = ''!'' then
                       (case match L ''='' of
                          (True, L') \<Rightarrow> Inr (add_token L' NOT_EQUAL ''!='')
                        | (False, L') \<Rightarrow> Inr (add_token L' ty char))
                     else Inr (add_token L ty char))
                | None \<Rightarrow>
                    if str_isalpha char \<or> char = ''_'' then identifier' L
                    else if str_isdigit char \<or> (char = ''.'' \<and> str_isdigit (peek L))
                      then number L char
                    else Inr (add_token L UNKNOWN char)))"

declare comment_loop.simps [simp del] identifier_loop.simps [simp del] number_loop.simps [simp del]

section \<open>One scanning step\<close>

text \<open>
  Every function of the lexer changes the position, the line, the column and the list of
  tokens only; \<open>moved L k l c new\<close> is the state \<open>L\<close> after \<open>k\<close> more characters, at
  line \<open>l\<close> and column \<open>c\<close>, with the tokens \<open>new\<close> appended.
\<close>

definition moved :: "Lexer \<Rightarrow> nat \<Rightarrow> int \<Rightarrow> int \<Rightarrow> Token list \<Rightarrow> Lexer" where
  "moved L k l c new =
     L\<lparr>position := position L + k, line := l, column := c, tokens := tokens L @ new\<rparr>"

lemma moved_simps [simp]:
  "source (moved L k l c new) = source L"
  "position (moved L k l c new) = position L + k"
  "line (moved L k l c new) = l"
  "column (moved L k l c new) = c"
  "tokens (moved L k l c new) = tokens L @ new"
  "keywords_dict (moved L k l c new) = keywords_dict L"
  "built_in_functions (moved L k l c new) = built_in_functions L"
  "single_char_tokens (moved L k l c new) = single_char_tokens L"
  by (simp_all add: moved_def)

lemma moved_moved [simp]:
  "moved (moved L k l c new) k' l' c' new' = moved L (k + k') l' c' (new @ new')"
  by (simp add: moved_def add.assoc)

lemma moved_id: "moved L 0 (line L) (column L) [] = L"
  by (simp add: moved_def)

lemma advance_moved:
  "position L < length (source L) \<Longrightarrow>
   advance L = Inr ([source L ! position L],
     moved L 1 (if source L ! position L = CHR 0x0A then line L + 1 else line L)
       (if source L ! position L = CHR 0x0A then 1 else column L + 1) [])"
  by (simp add: advance_def moved_def newline_def Let_def)

lemma comment_loop_moved:
  "comment_loop L = Inr (moved L (length (takeWhile (\<lambda>c. c \<noteq> CHR 0x0A) (drop (position L) (source L))))
      (line L) (column L + int (length (takeWhile (\<lambda>c. c \<noteq> CHR 0x0A) (drop (position L) (source L))))) [])"
proof (induction L rule: comment_loop.induct)
  case (1 L)
  show ?case
  proof (cases "position L < length (source L) \<and> source L ! position L \<noteq> CHR 0x0A")
    case True
    then have d: "drop (position L) (source L) = source L ! position L # drop (Suc (position L)) (source L)"
      by (simp add: Cons_nth_drop_Suc)
    from True have c: "peek L \<noteq> newline \<and> \<not> is_at_end L"
      by (simp add: peek_def is_at_end_def newline_def)
    show ?thesis
      using True c 1[OF c advance_moved[of L, THEN sym, THEN sym]]
      by (subst comment_loop.simps) (simp add: advance_moved d)
  next
    case False
    then have c: "\<not> (peek L \<noteq> newline \<and> \<not> is_at_end L)"
      by (auto simp add: peek_def is_at_end_def newline_def)
    have "takeWhile (\<lambda>c. c \<noteq> CHR 0x0A) (drop (position L) (source L)) = []"
      using False by (cases "position L < length (source L)") (auto simp: Cons_nth_drop_Suc[symmetric])
    then show ?thesis using c
      by (subst comment_loop.simps) (auto simp add: moved_id)
  qed
qed

definition ident_char :: "char \<Rightarrow> bool" where
  "ident_char c = (isalnum c \<or> c = CHR ''_'')"

lemma peek_in: "position L < length (source L) \<Longrightarrow> peek L = [source L ! position L]"
  by (simp add: peek_def is_at_end_def)

lemma peek_out: "\<not> position L < length (source L) \<Longrightarrow> peek L = []"
  by (simp add: peek_def is_at_end_def)

lemma ident_char_not_newline: "ident_char c \<Longrightarrow> c \<noteq> CHR 0x0A"
  by (auto simp: ident_char_def isalnum_def isalpha_def isdigit_def isnumeric_def code_def Let_def)

lemma identifier_loop_moved:
  "identifier_loop L = Inr (moved L (length (takeWhile ident_char (drop (position L) (source L))))
      (line L) (column L + int (length (takeWhile ident_char (drop (position L) (source L))))) [])"
proof (induction L rule: identifier_loop.induct)
  case (1 L)
  show ?case
  proof (cases "position L < length (source L) \<and> ident_char (source L ! position L)")
    case True
    then have d: "drop (position L) (source L) = source L ! position L # drop (Suc (position L)) (source L)"
      by (simp add: Cons_nth_drop_Suc)
    from True have c: "\<not> is_at_end L \<and> (str_isalnum (peek L) \<or> peek L = ''_'')"
      by (auto simp add: peek_in is_at_end_def ident_char_def str_isalnum_def)
    from True have n: "source L ! position L \<noteq> CHR 0x0A"
      by (simp add: ident_char_not_newline)
    show ?thesis
      using True c n 1[OF c advance_moved[of L, THEN sym, THEN sym]]
      by (subst identifier_loop.simps) (simp add: advance_moved d)
  next
    case False
    then have c: "\<not> (\<not> is_at_end L \<and> (str_isalnum (peek L) \<or> peek L = ''_''))"
      by (auto simp add: peek_in is_at_end_def ident_char_def str_isalnum_def)
    have "takeWhile ident_char (drop (position L) (source L)) = []"
      using False by (cases "position L < length (source L)") (auto simp: Cons_nth_drop_Suc[symmetric])
    then show ?thesis using c
      by (subst identifier_loop.simps) (auto simp add: moved_id)
  qed
qed

fun num_span :: "bool \<Rightarrow> string \<Rightarrow> nat" where
  "num_span h [] = 0"
| "num_span h (c # cs) =
     (if isdigit c then Suc (num_span h cs)
      else if c = CHR ''.'' \<and> \<not> h then Suc (num_span True cs)
      else 0)"

fun num_flag :: "bool \<Rightarrow> string \<Rightarrow> bool" where
  "num_flag h [] = h"
| "num_flag h (c # cs) =
     (if isdigit c then num_flag h cs
      else if c = CHR ''.'' \<and> \<not> h then num_flag True cs
      else h)"

lemma isdigit_not_dot: "isdigit c \<Longrightarrow> c \<noteq> CHR ''.'' \<and> c \<noteq> CHR 0x0A"
  by (auto simp: isdigit_def code_def Let_def)

lemma number_loop_moved:
  "number_loop L h = Inr (moved L (num_span h (drop (position L) (source L)))
      (line L) (column L + int (num_span h (drop (position L) (source L)))) [],
      num_flag h (drop (position L) (source L)))"
proof (induction L h rule: number_loop.induct)
  case (1 L h)
  let ?c = "source L ! position L"
  show ?case
  proof (cases "position L < length (source L) \<and> (isdigit ?c \<or> (?c = CHR ''.'' \<and> \<not> h))")
    case True
    then have d: "drop (position L) (source L) = ?c # drop (Suc (position L)) (source L)"
      by (simp add: Cons_nth_drop_Suc)
    from True have c: "\<not> is_at_end L \<and> (str_isdigit (peek L) \<or> (peek L = ''.'' \<and> \<not> h))"
      by (auto simp add: peek_in is_at_end_def str_isdigit_def)
    from True have n: "?c \<noteq> CHR 0x0A"
      by (auto simp add: isdigit_not_dot)
    show ?thesis
      using True c n 1[OF c refl advance_moved[of L, THEN sym, THEN sym]]
      by (subst number_loop.simps) (auto simp add: advance_moved d peek_in isdigit_not_dot)
  next
    case False
    then have c: "\<not> (\<not> is_at_end L \<and> (str_isdigit (peek L) \<or> (peek L = ''.'' \<and> \<not> h)))"
      by (auto simp add: peek_in is_at_end_def str_isdigit_def)
    have "num_span h (drop (position L) (source L)) = 0 \<and> num_flag h (drop (position L) (source L)) = h"
      using False by (cases "position L < length (source L)") (auto simp: Cons_nth_drop_Suc[symmetric])
    then show ?thesis using c
      by (subst number_loop.simps) (auto simp add: moved_id)
  qed
qed


fun strip :: "bool \<Rightarrow> string \<Rightarrow> string" where
  "strip in_comment [] = []"
| "strip in_comment (c # cs) =
     (if in_comment then (if c = CHR 0x0A then strip False cs else strip True cs)
      else if c = CHR ''#'' then strip True cs
      else if isspace c then strip False cs
      else c # strip False cs)"

lemma isspace_newline: "isspace (CHR 0x0A)"
  by (simp add: isspace_def code_def)

lemma strip_comment: "strip True cs = strip False (dropWhile (\<lambda>c. c \<noteq> CHR 0x0A) cs)"
  by (induction cs) (auto simp: isspace_newline)

lemma strip_keep:
  "list_all (\<lambda>x. \<not> isspace x \<and> x \<noteq> CHR ''#'') xs \<Longrightarrow> strip False (xs @ ys) = xs @ strip False ys"
  by (induction xs) auto

lemma slice_nat:
  "a \<le> b \<Longrightarrow> b \<le> length s \<Longrightarrow> slice s (int a) (int b) = take (b - a) (drop a s)"
  by (simp add: slice_def clip_def Let_def min_def max_def)

lemma add_token_moved:
  "v \<noteq> [] \<Longrightarrow> add_token (moved L k l c new) ty v =
     moved L k l c (new @ [\<lparr>ttype = ty, tvalue = v, tline = l, tcolumn = c - int (length v)\<rparr>])"
  by (simp add: add_token_def moved_def Let_def)

lemma length_takeWhile_drop:
  "p \<le> length s \<Longrightarrow> p + length (takeWhile P (drop p s)) \<le> length s"
  using length_takeWhile_le[of P "drop p s"] by simp

lemma identifier_result:
  assumes "0 < position L" "position L \<le> length (source L)"
    and k: "k = length (takeWhile ident_char (drop (position L) (source L)))"
    and i: "ident = take (Suc k) (drop (position L - 1) (source L))"
  shows "identifier' L = Inr (moved L k (line L) (column L + int k)
           [\<lparr>ttype = (case keywords_dict L ident of Some kw \<Rightarrow> kw | None \<Rightarrow> IDENTIFIER),
             tvalue = ident, tline = line L, tcolumn = column L + int k - int (length ident)\<rparr>])"
proof -
  have le: "position L + k \<le> length (source L)"
    using assms(2) k by (simp add: length_takeWhile_drop)
  have sl: "slice (source L) (int (position L) - 1) (int (position L + k)) = ident"
    using slice_nat[of "position L - 1" "position L + k" "source L"] assms(1) le i
    by (simp add: of_nat_diff)
  have ne: "ident \<noteq> []"
    using assms(1,2) i by auto
  show ?thesis
    using ne sl
    by (simp add: identifier'_def identifier_loop_moved k[symmetric] add_token_moved Let_def
        split: option.split)
qed

lemma num_span_le: "num_span h cs \<le> length cs"
  by (induction cs arbitrary: h) auto

lemma num_span_chars:
  "list_all (\<lambda>x. isdigit x \<or> x = CHR ''.'') (take (num_span h cs) cs)"
  by (induction cs arbitrary: h) auto

lemma number_result:
  assumes "0 < position L" "position L \<le> length (source L)"
    and k: "k = num_span (fc = ''.'') (drop (position L) (source L))"
    and i: "str = take (Suc k) (drop (position L - 1) (source L))"
  shows "number L fc = Inr (moved L k (line L) (column L + int k)
           [\<lparr>ttype = (if num_flag (fc = ''.'') (drop (position L) (source L)) then FLOAT else INTEGER),
             tvalue = str, tline = line L, tcolumn = column L + int k - int (length str)\<rparr>])"
proof -
  have le: "position L + k \<le> length (source L)"
    using assms(2) k num_span_le[of "fc = ''.''" "drop (position L) (source L)"] by simp
  have sl: "slice (source L) (int (position L) - 1) (int (position L + k)) = str"
    using slice_nat[of "position L - 1" "position L + k" "source L"] assms(1) le i
    by (simp add: of_nat_diff)
  have ne: "str \<noteq> []"
    using assms(1,2) i by auto
  show ?thesis
    using ne sl
    by (simp add: number_def number_loop_moved k[symmetric] add_token_moved Let_def)
qed

definition plain :: "char \<Rightarrow> bool" where
  "plain c = (\<not> isspace c \<and> c \<noteq> CHR ''#'')"

lemma ident_char_plain: "ident_char c \<Longrightarrow> plain c"
  by (auto simp: plain_def ident_char_def isalnum_def isalpha_def isdigit_def isnumeric_def
      isspace_def code_def Let_def)

lemma digit_dot_plain: "isdigit c \<or> c = CHR ''.'' \<Longrightarrow> plain c"
  by (auto simp: plain_def isdigit_def isspace_def code_def Let_def)

lemma strip_plain: "list_all plain xs \<Longrightarrow> strip False (xs @ ys) = xs @ strip False ys"
  by (induction xs) (auto simp: plain_def)

definition init_tables :: "Lexer \<Rightarrow> bool" where
  "init_tables L = (single_char_tokens L = single_char_tokens_init \<and> keywords_dict L = keywords_init)"

definition ordinary :: "Token \<Rightarrow> bool" where
  "ordinary t = (ttype t \<noteq> EOF \<and> ttype t \<noteq> NOT_EQUAL)"

definition scanned :: "Lexer \<Rightarrow> nat \<Rightarrow> Token list \<Rightarrow> bool" where
  "scanned L k new =
     (0 < k \<and> position L + k \<le> length (source L) \<and>
      concat (map tvalue new) @ strip False (drop (position L + k) (source L))
        = strip False (drop (position L) (source L)) \<and>
      (init_tables L \<longrightarrow> list_all ordinary new))"

lemma keywords_init_ordinary: "keywords_init s = Some ty \<Longrightarrow> ty \<noteq> EOF \<and> ty \<noteq> NOT_EQUAL"
  by (auto simp: keywords_init_def split: if_splits)

lemma single_char_tokens_init_ordinary:
  "single_char_tokens_init s = Some ty \<Longrightarrow> ty \<noteq> EOF \<and> ty \<noteq> NOT_EQUAL"
  by (auto simp: single_char_tokens_init_def split: if_splits)

lemma single_char_tokens_init_bang: "single_char_tokens_init ''!'' = None"
  by (simp add: single_char_tokens_init_def)

lemma scanned_lexeme:
  assumes "list_all plain w" "w \<noteq> []"
    and tk: "take (length w) (drop (position L) (source L)) = w"
    and "init_tables L \<longrightarrow> ordinary t" "tvalue t = w"
  shows "scanned L (length w) [t]"
proof -
  have len: "length w \<le> length (source L) - position L"
    using arg_cong[OF tk, of length] by simp
  with assms(2) have le: "position L + length w \<le> length (source L)" "position L < length (source L)"
    by (cases w; simp)+
  have "drop (position L) (source L) = w @ drop (position L + length w) (source L)"
    using append_take_drop_id[of "length w" "drop (position L) (source L)"] tk
    by (simp add: add.commute)
  then have "strip False (drop (position L) (source L))
      = w @ strip False (drop (position L + length w) (source L))"
    using strip_plain[OF assms(1)] by simp
  then show ?thesis
    using assms le by (simp add: scanned_def)
qed

lemma match_moved:
  "match L e = (if position L < length (source L) \<and> [source L ! position L] = e
     then (True, moved L 1 (line L) (column L + 1) []) else (False, L))"
  by (auto simp: match_def is_at_end_def moved_def)

lemma isspace_not_hash: "isspace c \<Longrightarrow> c \<noteq> CHR ''#''"
  by (auto simp: isspace_def code_def Let_def)

lemma plain_bang_eq: "plain (CHR ''!'')" "plain (CHR ''='')"
  by (auto simp: plain_def isspace_def code_def Let_def)

lemma scan_token_step:
  assumes lt: "position L < length (source L)"
  shows "\<exists>k l c new. scan_token L = Inr (moved L k l c new) \<and> scanned L k new"
proof -
  let ?p = "position L" and ?s = "source L"
  let ?c0 = "?s ! ?p" and ?rest = "drop (Suc ?p) ?s"
  have d: "drop ?p ?s = ?c0 # ?rest"
    using lt by (simp add: Cons_nth_drop_Suc)
  obtain l1 c1 where adv: "advance L = Inr ([?c0], moved L 1 l1 c1 [])"
    using advance_moved[OF lt] by blast
  let ?L1 = "moved L 1 l1 c1 []"
  have p1: "0 < position ?L1" "position ?L1 \<le> length (source ?L1)" "position ?L1 = Suc ?p"
    using lt by simp_all
  show ?thesis
  proof (cases "isspace ?c0")
    case True
    then have "scan_token L = Inr ?L1"
      by (simp add: scan_token_def adv str_isspace_def)
    moreover have "scanned L 1 []"
      using True lt d isspace_not_hash[OF True] by (simp add: scanned_def)
    ultimately show ?thesis by blast
  next
    case nsp: False
    show ?thesis
    proof (cases "?c0 = CHR ''#''")
      case True
      let ?k = "length (takeWhile (\<lambda>c. c \<noteq> CHR 0x0A) ?rest)"
      have "scan_token L = Inr (moved L (1 + ?k) l1 (c1 + int ?k) [])"
        using nsp True by (simp add: scan_token_def adv str_isspace_def comment_loop_moved)
      moreover have "scanned L (1 + ?k) []"
      proof -
        have "Suc ?p + ?k \<le> length ?s"
          using lt by (intro length_takeWhile_drop) simp
        moreover have "drop (?p + (1 + ?k)) ?s = dropWhile (\<lambda>c. c \<noteq> CHR 0x0A) ?rest"
          by (simp add: dropWhile_eq_drop add.commute)
        ultimately show ?thesis
          using True d nsp by (simp add: scanned_def strip_comment)
      qed
      ultimately show ?thesis by blast
    next
      case nh: False
      have pl: "plain ?c0" using nsp nh by (simp add: plain_def)
      have tk1: "take (length [?c0]) (drop ?p ?s) = [?c0]" using d by simp
      show ?thesis
      proof (cases "single_char_tokens L [?c0]")
        case (Some ty)
        show ?thesis
        proof (cases "?c0 = CHR ''!'' \<and> Suc ?p < length ?s \<and> ?s ! Suc ?p = CHR ''=''")
          case True
          let ?t = "\<lparr>ttype = NOT_EQUAL, tvalue = ''!='', tline = l1, tcolumn = c1 + 1 - 2\<rparr>"
          have "scan_token L = Inr (moved L 2 l1 (c1 + 1) [?t])"
            using True nsp Some
            by (simp add: scan_token_def adv str_isspace_def match_moved add_token_moved)
          moreover have "scanned L (length ''!='') [?t]"
          proof (rule scanned_lexeme)
            have "drop (Suc ?p) ?s = CHR ''='' # drop (Suc (Suc ?p)) ?s"
              using True by (metis Cons_nth_drop_Suc)
            then show "take (length ''!='') (drop ?p ?s) = ''!=''"
              using d True by simp
            show "init_tables L \<longrightarrow> ordinary ?t"
              using Some True by (auto simp add: init_tables_def single_char_tokens_init_bang)
          qed (simp_all add: plain_bang_eq)
          ultimately show ?thesis by (metis length_Cons list.size(3) numeral_2_eq_2)
        next
          case False
          let ?t = "\<lparr>ttype = ty, tvalue = [?c0], tline = l1, tcolumn = c1 - 1\<rparr>"
          have "scan_token L = Inr (moved L 1 l1 c1 [?t])"
            using False nsp nh Some
            by (auto simp add: scan_token_def adv str_isspace_def match_moved add_token_moved)
          moreover have "scanned L (length [?c0]) [?t]"
          proof (rule scanned_lexeme)
            show "init_tables L \<longrightarrow> ordinary ?t"
              using Some single_char_tokens_init_ordinary[of "[?c0]" ty]
              by (auto simp add: init_tables_def ordinary_def)
          qed (use pl tk1 in simp_all)
          ultimately show ?thesis by (metis length_Cons list.size(3) One_nat_def)
        qed
      next
        case None
        show ?thesis
        proof (cases "isalpha ?c0 \<or> ?c0 = CHR ''_''")
          case True
          let ?k = "length (takeWhile ident_char ?rest)"
          let ?w = "?c0 # takeWhile ident_char ?rest"
          have w: "take (Suc ?k) (drop (position ?L1 - 1) (source ?L1)) = ?w"
            using d by (simp add: takeWhile_eq_take[symmetric])
          obtain t where t: "identifier' ?L1 = Inr (moved ?L1 ?k l1 (c1 + int ?k) [t])"
              "tvalue t = ?w" "ttype t = (case keywords_dict L ?w of Some kw \<Rightarrow> kw | None \<Rightarrow> IDENTIFIER)"
            using identifier_result[OF p1(1,2), of ?k ?w] w by simp
          have "scan_token L = Inr (moved L (1 + ?k) l1 (c1 + int ?k) [t])"
            using True nsp nh None t(1)
            by (auto simp add: scan_token_def adv str_isspace_def str_isalpha_def)
          moreover have "scanned L (length ?w) [t]"
          proof (rule scanned_lexeme)
            show "list_all plain ?w"
              using pl ident_char_plain
              by (auto simp: list_all_iff dest: set_takeWhileD)
            show "take (length ?w) (drop ?p ?s) = ?w"
              using d by (simp add: takeWhile_eq_take[symmetric])
            show "init_tables L \<longrightarrow> ordinary t"
              using t(3) keywords_init_ordinary[of ?w]
              by (auto simp add: init_tables_def ordinary_def split: option.splits)
          qed (use t(2) in simp_all)
          ultimately show ?thesis by (metis length_Cons plus_1_eq_Suc)
        next
          case na: False
          show ?thesis
          proof (cases "isdigit ?c0 \<or> (?c0 = CHR ''.'' \<and> str_isdigit (peek ?L1))")
            case True
            let ?k = "num_span ([?c0] = ''.'') ?rest"
            let ?w = "?c0 # take ?k ?rest"
            have w: "take (Suc ?k) (drop (position ?L1 - 1) (source ?L1)) = ?w"
              using d by simp
            obtain t where t: "number ?L1 [?c0] = Inr (moved ?L1 ?k l1 (c1 + int ?k) [t])"
                "tvalue t = ?w" "ttype t = FLOAT \<or> ttype t = INTEGER"
              using number_result[OF p1(1,2), of ?k "[?c0]" ?w] w by simp
            have "scan_token L = Inr (moved L (1 + ?k) l1 (c1 + int ?k) [t])"
              using True na nsp nh None t(1)
              by (auto simp add: scan_token_def adv str_isspace_def str_isalpha_def str_isdigit_def)
            moreover have "scanned L (length ?w) [t]"
            proof (rule scanned_lexeme)
              have "list_all plain (take ?k ?rest)"
                using num_span_chars[of "[?c0] = ''.''" ?rest] digit_dot_plain
                by (auto simp: list_all_iff)
              then show "list_all plain ?w"
                using pl by simp
              show "take (length ?w) (drop ?p ?s) = ?w"
                using d num_span_le[of "[?c0] = ''.''" ?rest] by (simp add: min_def)
              show "init_tables L \<longrightarrow> ordinary t"
                using t(3) by (auto simp add: ordinary_def)
            qed (use t(2) in simp_all)
            moreover have "length ?w = 1 + ?k"
              using num_span_le[of "[?c0] = ''.''" ?rest] by (simp add: min_def)
            ultimately show ?thesis by metis
          next
            case False
            let ?t = "\<lparr>ttype = UNKNOWN, tvalue = [?c0], tline = l1, tcolumn = c1 - 1\<rparr>"
            have "scan_token L = Inr (moved L 1 l1 c1 [?t])"
              using False na nsp nh None
              by (auto simp add: scan_token_def adv str_isspace_def str_isalpha_def
                  str_isdigit_def add_token_moved)
            moreover have "scanned L (length [?c0]) [?t]"
            proof (rule scanned_lexeme)
              show "init_tables L \<longrightarrow> ordinary ?t"
                by (simp add: ordinary_def)
            qed (use pl tk1 in simp_all)
            ultimately show ?thesis by (metis length_Cons list.size(3) One_nat_def)
          qed
        qed
      qed
    qed
  qed
qed


section \<open>Scanning a source text\<close>

text \<open>
  \<^verbatim>\<open>scan_tokens\<close>: the loop \<^verbatim>\<open>while not self.is_at_end(): self.scan_token()\<close>, then the
  token \<^verbatim>\<open>EOF\<close>, added with an empty value. It returns \<^verbatim>\<open>self.tokens\<close>.
\<close>

function scan_tokens :: "Lexer \<Rightarrow> error + Token list" where
  "scan_tokens L =
     (if \<not> is_at_end L then
        (case scan_token L of Inl e \<Rightarrow> Inl e | Inr L' \<Rightarrow> scan_tokens L')
      else Inr (tokens (add_token L EOF [])))"
  by pat_completeness auto
termination
proof (relation "measure (\<lambda>L. length (source L) - position L)")
  fix L L'
  assume "\<not> is_at_end L" and r: "scan_token L = Inr L'"
  then have lt: "position L < length (source L)"
    by (simp add: is_at_end_def)
  from scan_token_step[OF lt] r obtain k l c new
    where "L' = moved L k l c new" "scanned L k new" by auto
  then have "L' = moved L k l c new" "0 < k" "position L + k \<le> length (source L)"
    by (simp_all add: scanned_def)
  then show "(L', L) \<in> measure (\<lambda>L. length (source L) - position L)"
    by simp
qed simp

declare scan_tokens.simps [simp del]

text \<open>
  \<^verbatim>\<open>Lexer(source).scan_tokens()\<close>, as \<^verbatim>\<open>main\<close> calls it, and the sequence that \<^verbatim>\<open>main\<close>
  gives to \<^verbatim>\<open>calculate\<close>: \<^verbatim>\<open>tokens[:-1]\<close>, the tokens without the last one.
\<close>

definition tokenize :: "string \<Rightarrow> error + Token list" where
  "tokenize src = scan_tokens (Lexer_init src)"


lemma init_tables_moved [simp]: "init_tables (moved L k l c new) = init_tables L"
  by (simp add: init_tables_def)

lemma scan_tokens_result:
  "\<exists>new eof. scan_tokens L = Inr (tokens L @ new @ [eof]) \<and> ttype eof = EOF \<and>
     concat (map tvalue new) = strip False (drop (position L) (source L)) \<and>
     (init_tables L \<longrightarrow> list_all ordinary new)"
proof (induction L rule: scan_tokens.induct)
  case (1 L)
  show ?case
  proof (cases "is_at_end L")
    case True
    then have "scan_tokens L = Inr (tokens L @ [] @
        [\<lparr>ttype = EOF, tvalue = ''EOF'', tline = line L, tcolumn = column L - 3\<rparr>])"
      by (subst scan_tokens.simps) (simp add: add_token_def)
    moreover have "strip False (drop (position L) (source L)) = []"
      using True by (simp add: is_at_end_def)
    ultimately show ?thesis by fastforce
  next
    case False
    then have lt: "position L < length (source L)"
      by (simp add: is_at_end_def)
    from scan_token_step[OF lt] obtain k l c new1
      where st: "scan_token L = Inr (moved L k l c new1)" and sc: "scanned L k new1" by auto
    from 1[OF False st] obtain new2 eof
      where r: "scan_tokens (moved L k l c new1) = Inr (tokens L @ new1 @ new2 @ [eof])"
        and e: "ttype eof = EOF"
        and c: "concat (map tvalue new2) = strip False (drop (position L + k) (source L))"
        and o: "init_tables L \<longrightarrow> list_all ordinary new2"
      by auto
    have "scan_tokens L = Inr (tokens L @ (new1 @ new2) @ [eof])"
      using False st r by (subst scan_tokens.simps) simp
    moreover have "concat (map tvalue (new1 @ new2)) = strip False (drop (position L) (source L))"
      using sc c by (simp add: scanned_def)
    moreover have "init_tables L \<longrightarrow> list_all ordinary (new1 @ new2)"
      using sc o by (simp add: scanned_def)
    ultimately show ?thesis using e by blast
  qed
qed

lemma tokenize_result:
  "\<exists>new eof. tokenize src = Inr (new @ [eof]) \<and> ttype eof = EOF \<and>
     concat (map tvalue new) = strip False src \<and> list_all ordinary new"
  using scan_tokens_result[of "Lexer_init src"]
  by (simp add: tokenize_def Lexer_init_def init_tables_def)

section \<open>The token of the end of input\<close>

text \<open>
  Claim C3: tokenizing the empty string returns exactly one token, of kind \<^verbatim>\<open>EOF\<close>, at
  line 1 and column 1. The code returns one token of kind \<^verbatim>\<open>EOF\<close> at line 1, but its
  column is \<open>-2\<close>: \<^verbatim>\<open>add_token\<close> replaces the empty value by the name \<^verbatim>\<open>EOF\<close> and then
  subtracts the length of that name from the column 1.
\<close>

theorem tokenize_empty_column:
  "tokenize [] = Inr [\<lparr>ttype = EOF, tvalue = ''EOF'', tline = 1, tcolumn = - 2\<rparr>]"
  by (simp add: tokenize_def Lexer_init_def scan_tokens.simps is_at_end_def add_token_def)

section \<open>The lexemes and the source text\<close>

text \<open>
  The text that the claim names: the characters of the source without the white space
  and without the comments, each from \<^verbatim>\<open>#\<close> to the end of its line. It is \<open>strip\<close> started
  outside a comment.
\<close>

definition non_comment_content :: "string \<Rightarrow> string" where
  "non_comment_content src = strip False src"

text \<open>
  Claim C4: for every source string, the lexemes of the tokens before the final \<^verbatim>\<open>EOF\<close>
  token, concatenated in order, are the characters of the source with all white space and
  all comment content removed, in their order; nothing else is dropped or duplicated.
\<close>

theorem lexemes_reconstruct_source:
  "\<exists>toks. tokenize src = Inr toks \<and>
     concat (map tvalue (butlast toks)) = non_comment_content src"
  using tokenize_result[of src] by (auto simp: non_comment_content_def)

section \<open>Termination and the final token\<close>

text \<open>
  Claim C5: for every source string the tokenizer terminates (\<open>scan_tokens\<close> is a total
  function and returns a list, not an error), each scanning step away from the end of the
  source consumes at least one character and stays inside the source, the last token is
  an \<^verbatim>\<open>EOF\<close> token, and it is the only \<^verbatim>\<open>EOF\<close> token of the list.
\<close>

theorem tokenize_ends_with_one_eof:
  "(\<exists>toks. tokenize src = Inr toks \<and> toks \<noteq> [] \<and> ttype (last toks) = EOF \<and>
      length (filter (\<lambda>t. ttype t = EOF) toks) = 1) \<and>
   (\<not> is_at_end L \<longrightarrow>
      (\<exists>L'. scan_token L = Inr L' \<and> source L' = source L \<and>
         position L < position L' \<and> position L' \<le> length (source L')))"
proof
  from tokenize_result[of src] obtain new eof
    where r: "tokenize src = Inr (new @ [eof])" "ttype eof = EOF" "list_all ordinary new"
    by blast
  have "filter (\<lambda>t. ttype t = EOF) new = []"
    using r(3) by (auto simp: filter_empty_conv list_all_iff ordinary_def)
  then show "\<exists>toks. tokenize src = Inr toks \<and> toks \<noteq> [] \<and> ttype (last toks) = EOF \<and>
      length (filter (\<lambda>t. ttype t = EOF) toks) = 1"
    using r(1,2) by simp
next
  show "\<not> is_at_end L \<longrightarrow>
      (\<exists>L'. scan_token L = Inr L' \<and> source L' = source L \<and>
         position L < position L' \<and> position L' \<le> length (source L'))"
  proof
    assume "\<not> is_at_end L"
    then have lt: "position L < length (source L)"
      by (simp add: is_at_end_def)
    from scan_token_step[OF lt] obtain k l c new
      where "scan_token L = Inr (moved L k l c new)" "scanned L k new" by blast
    then show "\<exists>L'. scan_token L = Inr L' \<and> source L' = source L \<and>
         position L < position L' \<and> position L' \<le> length (source L')"
      by (simp add: scanned_def)
  qed
qed

theorem tokenize_ends_with_one_eof_witness:
  "(\<exists>toks. tokenize ''a b'' = Inr toks \<and> toks \<noteq> [] \<and> ttype (last toks) = EOF \<and>
      length (filter (\<lambda>t. ttype t = EOF) toks) = 1) \<and>
   \<not> is_at_end (Lexer_init ''a b'') \<and>
   (\<exists>L'. scan_token (Lexer_init ''a b'') = Inr L' \<and> source L' = source (Lexer_init ''a b'') \<and>
         position (Lexer_init ''a b'') < position L' \<and> position L' \<le> length (source L'))"
  using tokenize_ends_with_one_eof[of "''a b''" "Lexer_init ''a b''"]
  by (simp add: is_at_end_def Lexer_init_def)

section \<open>The token \<^verbatim>\<open>NOT_EQUAL\<close>\<close>

lemma tokenize_bang_equal:
  "tokenize ''!='' = Inr
   [\<lparr>ttype = UNKNOWN, tvalue = ''!'', tline = 1, tcolumn = 1\<rparr>,
    \<lparr>ttype = EQUAL, tvalue = ''='', tline = 1, tcolumn = 2\<rparr>,
    \<lparr>ttype = EOF, tvalue = ''EOF'', tline = 1, tcolumn = 0\<rparr>]"
  by code_simp

lemma scan_token_bang:
  assumes "position L < length (source L)" "source L ! position L = CHR ''!''"
    and "single_char_tokens L = single_char_tokens_init"
  shows "scan_token L = Inr (L\<lparr>position := position L + 1, column := column L + 1,
           tokens := tokens L @
             [\<lparr>ttype = UNKNOWN, tvalue = ''!'', tline = line L, tcolumn = column L\<rparr>]\<rparr>)"
  using assms
  by (simp add: scan_token_def advance_moved add_token_moved single_char_tokens_init_bang
      str_isspace_def str_isalpha_def str_isdigit_def isspace_def isalpha_def isdigit_def
      code_def moved_def add_token_def)

text \<open>
  Claim C8: for every input string the tokenizer returns no \<^verbatim>\<open>NOT_EQUAL\<close> token. The
  character \<^verbatim>\<open>!\<close> is not a key of the table of single characters, so the branch for \<^verbatim>\<open>!=\<close>
  is never reached: a scanning step that starts at \<^verbatim>\<open>!\<close> consumes that one character and
  appends an \<^verbatim>\<open>UNKNOWN\<close> token with the lexeme \<^verbatim>\<open>!\<close>, as it does for the source \<^verbatim>\<open>!=\<close>.
\<close>

theorem no_not_equal_token:
  "(\<exists>toks. tokenize src = Inr toks \<and> list_all (\<lambda>t. ttype t \<noteq> NOT_EQUAL) toks) \<and>
   (position L < length (source L) \<and> source L ! position L = CHR ''!'' \<and>
    single_char_tokens L = single_char_tokens_init \<longrightarrow>
      scan_token L = Inr (L\<lparr>position := position L + 1, column := column L + 1,
           tokens := tokens L @
             [\<lparr>ttype = UNKNOWN, tvalue = ''!'', tline = line L, tcolumn = column L\<rparr>]\<rparr>)) \<and>
   tokenize ''!='' = Inr
     [\<lparr>ttype = UNKNOWN, tvalue = ''!'', tline = 1, tcolumn = 1\<rparr>,
      \<lparr>ttype = EQUAL, tvalue = ''='', tline = 1, tcolumn = 2\<rparr>,
      \<lparr>ttype = EOF, tvalue = ''EOF'', tline = 1, tcolumn = 0\<rparr>]"
proof (intro conjI impI)
  from tokenize_result[of src] obtain new eof
    where r: "tokenize src = Inr (new @ [eof])" "ttype eof = EOF" "list_all ordinary new"
    by blast
  then show "\<exists>toks. tokenize src = Inr toks \<and> list_all (\<lambda>t. ttype t \<noteq> NOT_EQUAL) toks"
    by (auto simp: list_all_iff ordinary_def)
qed (simp_all add: scan_token_bang tokenize_bang_equal)

theorem no_not_equal_token_witness:
  "(\<exists>toks. tokenize ''a != b'' = Inr toks \<and> list_all (\<lambda>t. ttype t \<noteq> NOT_EQUAL) toks) \<and>
   position (Lexer_init ''!='') < length (source (Lexer_init ''!='')) \<and>
   source (Lexer_init ''!='') ! position (Lexer_init ''!='') = CHR ''!'' \<and>
   single_char_tokens (Lexer_init ''!='') = single_char_tokens_init \<and>
   scan_token (Lexer_init ''!='') = Inr ((Lexer_init ''!='')\<lparr>position := 1, column := 2,
           tokens := [\<lparr>ttype = UNKNOWN, tvalue = ''!'', tline = 1, tcolumn = 1\<rparr>]\<rparr>)"
  using no_not_equal_token[of "''a != b''" "Lexer_init ''!=''"]
  by (simp add: Lexer_init_def)

section \<open>The evaluator\<close>

text \<open>
  \<^verbatim>\<open>calculate\<close> works on Python numbers: \<^verbatim>\<open>int(token.value)\<close>, \<^verbatim>\<open>float(token.value)\<close>, the
  operators \<^verbatim>\<open>+\<close>, \<^verbatim>\<open>-\<close>, \<^verbatim>\<open>*\<close>, \<^verbatim>\<open>/\<close>, \<^verbatim>\<open>%\<close>, \<^verbatim>\<open>**\<close>, the literal \<^verbatim>\<open>0\<close>, and \<^verbatim>\<open>math.sin\<close> and
  \<^verbatim>\<open>math.cos\<close>. They belong to the interpreter, not to the repository, so the evaluator
  takes them as a parameter: a record of operations on a type \<open>'v\<close> of values, each of
  which returns a value or raises. What is proved for every such record holds for the
  arithmetic of Python.
\<close>

record 'v host =
  py_int :: "string \<Rightarrow> error + 'v"
  py_float :: "string \<Rightarrow> error + 'v"
  py_zero :: 'v
  py_add :: "'v \<Rightarrow> 'v \<Rightarrow> error + 'v"
  py_sub :: "'v \<Rightarrow> 'v \<Rightarrow> error + 'v"
  py_mul :: "'v \<Rightarrow> 'v \<Rightarrow> error + 'v"
  py_truediv :: "'v \<Rightarrow> 'v \<Rightarrow> error + 'v"
  py_mod :: "'v \<Rightarrow> 'v \<Rightarrow> error + 'v"
  py_pow :: "'v \<Rightarrow> 'v \<Rightarrow> error + 'v"
  math_sin :: "'v \<Rightarrow> error + 'v"
  math_cos :: "'v \<Rightarrow> error + 'v"

text \<open>\<^verbatim>\<open>pos_increment\<close>: \<^verbatim>\<open>pos += 1\<close> on the shared variable.\<close>

definition pos_increment :: "nat \<Rightarrow> nat" where
  "pos_increment pos = pos + 1"

text \<open>
  The nested functions \<^verbatim>\<open>expression\<close>, \<^verbatim>\<open>term\<close>, \<^verbatim>\<open>factor\<close>, \<^verbatim>\<open>power\<close> and \<^verbatim>\<open>primary\<close> call each
  other, and the variable \<^verbatim>\<open>pos\<close> they share is passed in and returned. They are defined
  together, by recursion on a bound \<open>n\<close> on the depth of the calls: \<open>descend A ts n r pos\<close>
  runs the function \<open>r\<close> at the position \<open>pos\<close>. The result is \<open>None\<close> when the bound is too
  small, \<open>Some (Inl e)\<close> when the exception \<open>e\<close> is raised, and \<open>Some (Inr (v, pos'))\<close> when
  the function returns \<open>v\<close> and leaves the position \<open>pos'\<close>. The two \<^verbatim>\<open>while\<close> loops are
  \<open>Term_loop left\<close> and \<open>Factor_loop left\<close>, entered with the value of \<^verbatim>\<open>left\<close>.
\<close>

datatype 'v rule = Expression | Term | Term_loop 'v | Factor | Factor_loop 'v | Power | Primary

primrec descend :: "'v host \<Rightarrow> Token list \<Rightarrow> nat \<Rightarrow> 'v rule \<Rightarrow> nat \<Rightarrow> (error + 'v \<times> nat) option" where
  "descend A ts 0 r pos = None"
| "descend A ts (Suc n) r pos =
     (case r of
        Expression \<Rightarrow> descend A ts n Term pos
      | Term \<Rightarrow>
          (case descend A ts n Factor pos of
             None \<Rightarrow> None
           | Some (Inl e) \<Rightarrow> Some (Inl e)
           | Some (Inr (left, pos1)) \<Rightarrow> descend A ts n (Term_loop left) pos1)
      | Term_loop left \<Rightarrow>
          (if pos < length ts \<and> ttype (ts ! pos) \<in> {PLUS, MINUS} then
             (let op = ts ! pos in
              case descend A ts n Factor (pos_increment pos) of
                None \<Rightarrow> None
              | Some (Inl e) \<Rightarrow> Some (Inl e)
              | Some (Inr (right, pos1)) \<Rightarrow>
                  if ttype op = PLUS then
                    (case py_add A left right of
                       Inl e \<Rightarrow> Some (Inl e)
                     | Inr left1 \<Rightarrow> descend A ts n (Term_loop left1) pos1)
                  else if ttype op = MINUS then
                    (case py_sub A left right of
                       Inl e \<Rightarrow> Some (Inl e)
                     | Inr left1 \<Rightarrow> descend A ts n (Term_loop left1) pos1)
                  else descend A ts n (Term_loop left) pos1)
           else Some (Inr (left, pos)))
      | Factor \<Rightarrow>
          (case descend A ts n Power pos of
             None \<Rightarrow> None
           | Some (Inl e) \<Rightarrow> Some (Inl e)
           | Some (Inr (left, pos1)) \<Rightarrow> descend A ts n (Factor_loop left) pos1)
      | Factor_loop left \<Rightarrow>
          (if pos < length ts \<and> ttype (ts ! pos) \<in> {MULTIPLY, DIVIDE, MODULO} then
             (let op = ts ! pos in
              case descend A ts n Power (pos_increment pos) of
                None \<Rightarrow> None
              | Some (Inl e) \<Rightarrow> Some (Inl e)
              | Some (Inr (right, pos1)) \<Rightarrow>
                  if ttype op = MULTIPLY then
                    (case py_mul A left right of
                       Inl e \<Rightarrow> Some (Inl e)
                     | Inr left1 \<Rightarrow> descend A ts n (Factor_loop left1) pos1)
                  else if ttype op = DIVIDE then
                    (case py_truediv A left right of
                       Inl e \<Rightarrow> Some (Inl e)
                     | Inr left1 \<Rightarrow> descend A ts n (Factor_loop left1) pos1)
                  else if ttype op = MODULO then
                    (case py_mod A left right of
                       Inl e \<Rightarrow> Some (Inl e)
                     | Inr left1 \<Rightarrow> descend A ts n (Factor_loop left1) pos1)
                  else descend A ts n (Factor_loop left) pos1)
           else Some (Inr (left, pos)))
      | Power \<Rightarrow>
          (case descend A ts n Primary pos of
             None \<Rightarrow> None
           | Some (Inl e) \<Rightarrow> Some (Inl e)
           | Some (Inr (left, pos1)) \<Rightarrow>
               if pos1 < length ts \<and> ttype (ts ! pos1) = POWER then
                 (case descend A ts n Power (pos_increment pos1) of
                    None \<Rightarrow> None
                  | Some (Inl e) \<Rightarrow> Some (Inl e)
                  | Some (Inr (right, pos2)) \<Rightarrow>
                      (case py_pow A left right of
                         Inl e \<Rightarrow> Some (Inl e)
                       | Inr v \<Rightarrow> Some (Inr (v, pos2))))
               else Some (Inr (left, pos1)))
      | Primary \<Rightarrow>
          (if pos < length ts then
             (let token = ts ! pos; pos1 = pos_increment pos in
              if ttype token = INTEGER then
                (case py_int A (tvalue token) of
                   Inl e \<Rightarrow> Some (Inl e)
                 | Inr v \<Rightarrow> Some (Inr (v, pos1)))
              else if ttype token = FLOAT then
                (case py_float A (tvalue token) of
                   Inl e \<Rightarrow> Some (Inl e)
                 | Inr v \<Rightarrow> Some (Inr (v, pos1)))
              else if ttype token = IDENTIFIER then
                (if tvalue token = ''sin'' then
                   (if pos1 < length ts \<and> ttype (ts ! pos1) = LEFT_PAREN then
                      (case descend A ts n Expression (pos_increment pos1) of
                         None \<Rightarrow> None
                       | Some (Inl e) \<Rightarrow> Some (Inl e)
                       | Some (Inr (arg, pos2)) \<Rightarrow>
                           if pos2 < length ts \<and> ttype (ts ! pos2) = RIGHT_PAREN then
                             (case math_sin A arg of
                                Inl e \<Rightarrow> Some (Inl e)
                              | Inr v \<Rightarrow> Some (Inr (v, pos_increment pos2)))
                           else Some (Inr (py_zero A, pos2)))
                    else Some (Inr (py_zero A, pos1)))
                 else if tvalue token = ''cos'' then
                   (if pos1 < length ts \<and> ttype (ts ! pos1) = LEFT_PAREN then
                      (case descend A ts n Expression (pos_increment pos1) of
                         None \<Rightarrow> None
                       | Some (Inl e) \<Rightarrow> Some (Inl e)
                       | Some (Inr (arg, pos2)) \<Rightarrow>
                           if pos2 < length ts \<and> ttype (ts ! pos2) = RIGHT_PAREN then
                             (case math_cos A arg of
                                Inl e \<Rightarrow> Some (Inl e)
                              | Inr v \<Rightarrow> Some (Inr (v, pos_increment pos2)))
                           else Some (Inr (py_zero A, pos2)))
                    else Some (Inr (py_zero A, pos1)))
                 else Some (Inr (py_zero A, pos1)))
              else if ttype token = LEFT_PAREN then
                (case descend A ts n Expression pos1 of
                   None \<Rightarrow> None
                 | Some (Inl e) \<Rightarrow> Some (Inl e)
                 | Some (Inr (result, pos2)) \<Rightarrow>
                     if pos2 < length ts \<and> ttype (ts ! pos2) = RIGHT_PAREN then
                       Some (Inr (result, pos_increment pos2))
                     else Some (Inr (py_zero A, pos2)))
              else Some (Inr (py_zero A, pos1)))
           else Some (Inl IndexError)))"

definition expression :: "'v host \<Rightarrow> Token list \<Rightarrow> nat \<Rightarrow> nat \<Rightarrow> (error + 'v \<times> nat) option" where
  "expression A ts n pos = descend A ts n Expression pos"

definition term' :: "'v host \<Rightarrow> Token list \<Rightarrow> nat \<Rightarrow> nat \<Rightarrow> (error + 'v \<times> nat) option" where
  "term' A ts n pos = descend A ts n Term pos"

definition term_loop :: "'v host \<Rightarrow> Token list \<Rightarrow> nat \<Rightarrow> 'v \<Rightarrow> nat \<Rightarrow> (error + 'v \<times> nat) option" where
  "term_loop A ts n left pos = descend A ts n (Term_loop left) pos"

definition factor :: "'v host \<Rightarrow> Token list \<Rightarrow> nat \<Rightarrow> nat \<Rightarrow> (error + 'v \<times> nat) option" where
  "factor A ts n pos = descend A ts n Factor pos"

definition factor_loop :: "'v host \<Rightarrow> Token list \<Rightarrow> nat \<Rightarrow> 'v \<Rightarrow> nat \<Rightarrow> (error + 'v \<times> nat) option" where
  "factor_loop A ts n left pos = descend A ts n (Factor_loop left) pos"

definition power' :: "'v host \<Rightarrow> Token list \<Rightarrow> nat \<Rightarrow> nat \<Rightarrow> (error + 'v \<times> nat) option" where
  "power' A ts n pos = descend A ts n Power pos"

definition primary :: "'v host \<Rightarrow> Token list \<Rightarrow> nat \<Rightarrow> nat \<Rightarrow> (error + 'v \<times> nat) option" where
  "primary A ts n pos = descend A ts n Primary pos"

text \<open>
  \<^verbatim>\<open>calculate\<close> calls \<^verbatim>\<open>expression\<close> at position 0 and returns its result. The bound
  \<open>fuel ts\<close> is enough for every list of tokens (lemma \<open>calculate_returns\<close> below).
\<close>

definition fuel :: "Token list \<Rightarrow> nat" where
  "fuel ts = 7 * length ts + 7"

definition calculate :: "'v host \<Rightarrow> Token list \<Rightarrow> (error + 'v) option" where
  "calculate A ts =
     (case expression A ts (fuel ts) 0 of
        None \<Rightarrow> None
      | Some (Inl e) \<Rightarrow> Some (Inl e)
      | Some (Inr (result, pos)) \<Rightarrow> Some (Inr result))"

text \<open>
  The definition read function by function: these equations are the nested functions of
  \<^verbatim>\<open>calculate\<close> as the source has them, with the bound on the depth.
\<close>

lemma evaluator_equations:
  "expression A ts 0 pos = None"
  "expression A ts (Suc n) pos = term' A ts n pos"
  "term' A ts 0 pos = None"
  "term' A ts (Suc n) pos =
     (case factor A ts n pos of
        None \<Rightarrow> None
      | Some (Inl e) \<Rightarrow> Some (Inl e)
      | Some (Inr (left, pos1)) \<Rightarrow> term_loop A ts n left pos1)"
  "term_loop A ts 0 left pos = None"
  "term_loop A ts (Suc n) left pos =
     (if pos < length ts \<and> ttype (ts ! pos) \<in> {PLUS, MINUS} then
        (let op = ts ! pos in
         case factor A ts n (pos_increment pos) of
           None \<Rightarrow> None
         | Some (Inl e) \<Rightarrow> Some (Inl e)
         | Some (Inr (right, pos1)) \<Rightarrow>
             if ttype op = PLUS then
               (case py_add A left right of
                  Inl e \<Rightarrow> Some (Inl e)
                | Inr left1 \<Rightarrow> term_loop A ts n left1 pos1)
             else if ttype op = MINUS then
               (case py_sub A left right of
                  Inl e \<Rightarrow> Some (Inl e)
                | Inr left1 \<Rightarrow> term_loop A ts n left1 pos1)
             else term_loop A ts n left pos1)
      else Some (Inr (left, pos)))"
  "factor A ts 0 pos = None"
  "factor A ts (Suc n) pos =
     (case power' A ts n pos of
        None \<Rightarrow> None
      | Some (Inl e) \<Rightarrow> Some (Inl e)
      | Some (Inr (left, pos1)) \<Rightarrow> factor_loop A ts n left pos1)"
  "factor_loop A ts 0 left pos = None"
  "factor_loop A ts (Suc n) left pos =
     (if pos < length ts \<and> ttype (ts ! pos) \<in> {MULTIPLY, DIVIDE, MODULO} then
        (let op = ts ! pos in
         case power' A ts n (pos_increment pos) of
           None \<Rightarrow> None
         | Some (Inl e) \<Rightarrow> Some (Inl e)
         | Some (Inr (right, pos1)) \<Rightarrow>
             if ttype op = MULTIPLY then
               (case py_mul A left right of
                  Inl e \<Rightarrow> Some (Inl e)
                | Inr left1 \<Rightarrow> factor_loop A ts n left1 pos1)
             else if ttype op = DIVIDE then
               (case py_truediv A left right of
                  Inl e \<Rightarrow> Some (Inl e)
                | Inr left1 \<Rightarrow> factor_loop A ts n left1 pos1)
             else if ttype op = MODULO then
               (case py_mod A left right of
                  Inl e \<Rightarrow> Some (Inl e)
                | Inr left1 \<Rightarrow> factor_loop A ts n left1 pos1)
             else factor_loop A ts n left pos1)
      else Some (Inr (left, pos)))"
  "power' A ts 0 pos = None"
  "power' A ts (Suc n) pos =
     (case primary A ts n pos of
        None \<Rightarrow> None
      | Some (Inl e) \<Rightarrow> Some (Inl e)
      | Some (Inr (left, pos1)) \<Rightarrow>
          if pos1 < length ts \<and> ttype (ts ! pos1) = POWER then
            (case power' A ts n (pos_increment pos1) of
               None \<Rightarrow> None
             | Some (Inl e) \<Rightarrow> Some (Inl e)
             | Some (Inr (right, pos2)) \<Rightarrow>
                 (case py_pow A left right of
                    Inl e \<Rightarrow> Some (Inl e)
                  | Inr v \<Rightarrow> Some (Inr (v, pos2))))
          else Some (Inr (left, pos1)))"
  "primary A ts 0 pos = None"
  "primary A ts (Suc n) pos =
     (if pos < length ts then
        (let token = ts ! pos; pos1 = pos_increment pos in
         if ttype token = INTEGER then
           (case py_int A (tvalue token) of
              Inl e \<Rightarrow> Some (Inl e)
            | Inr v \<Rightarrow> Some (Inr (v, pos1)))
         else if ttype token = FLOAT then
           (case py_float A (tvalue token) of
              Inl e \<Rightarrow> Some (Inl e)
            | Inr v \<Rightarrow> Some (Inr (v, pos1)))
         else if ttype token = IDENTIFIER then
           (if tvalue token = ''sin'' then
              (if pos1 < length ts \<and> ttype (ts ! pos1) = LEFT_PAREN then
                 (case expression A ts n (pos_increment pos1) of
                    None \<Rightarrow> None
                  | Some (Inl e) \<Rightarrow> Some (Inl e)
                  | Some (Inr (arg, pos2)) \<Rightarrow>
                      if pos2 < length ts \<and> ttype (ts ! pos2) = RIGHT_PAREN then
                        (case math_sin A arg of
                           Inl e \<Rightarrow> Some (Inl e)
                         | Inr v \<Rightarrow> Some (Inr (v, pos_increment pos2)))
                      else Some (Inr (py_zero A, pos2)))
               else Some (Inr (py_zero A, pos1)))
            else if tvalue token = ''cos'' then
              (if pos1 < length ts \<and> ttype (ts ! pos1) = LEFT_PAREN then
                 (case expression A ts n (pos_increment pos1) of
                    None \<Rightarrow> None
                  | Some (Inl e) \<Rightarrow> Some (Inl e)
                  | Some (Inr (arg, pos2)) \<Rightarrow>
                      if pos2 < length ts \<and> ttype (ts ! pos2) = RIGHT_PAREN then
                        (case math_cos A arg of
                           Inl e \<Rightarrow> Some (Inl e)
                         | Inr v \<Rightarrow> Some (Inr (v, pos_increment pos2)))
                      else Some (Inr (py_zero A, pos2)))
               else Some (Inr (py_zero A, pos1)))
            else Some (Inr (py_zero A, pos1)))
         else if ttype token = LEFT_PAREN then
           (case expression A ts n pos1 of
              None \<Rightarrow> None
            | Some (Inl e) \<Rightarrow> Some (Inl e)
            | Some (Inr (result, pos2)) \<Rightarrow>
                if pos2 < length ts \<and> ttype (ts ! pos2) = RIGHT_PAREN then
                  Some (Inr (result, pos_increment pos2))
                else Some (Inr (py_zero A, pos2)))
         else Some (Inr (py_zero A, pos1)))
      else Some (Inl IndexError))"
  unfolding expression_def term'_def term_loop_def factor_def factor_loop_def
    power'_def primary_def
  by simp_all

section \<open>The position of the evaluator\<close>

text \<open>
  A function that returns has moved the position forward, by at least one token unless
  it is one of the two loops, and not beyond the end of the list.
\<close>

fun is_loop :: "'v rule \<Rightarrow> bool" where
  "is_loop (Term_loop left) = True"
| "is_loop (Factor_loop left) = True"
| "is_loop r = False"

lemma cursor:
  "descend A ts n r pos = Some (Inr (v, p)) \<Longrightarrow>
     (if is_loop r then pos \<le> p \<and> (pos \<le> length ts \<longrightarrow> p \<le> length ts)
      else pos < p \<and> p \<le> length ts)"
proof (induction n arbitrary: r pos v p)
  case 0
  then show ?case by simp
next
  case (Suc n)
  show ?case
  proof (cases r)
    case Expression
    with Suc.prems Suc.IH[of Term pos v p] show ?thesis by simp
  next
    case Term
    with Suc.prems show ?thesis
      by (auto split: option.splits sum.splits dest!: Suc.IH)
  next
    case (Term_loop left)
    with Suc.prems show ?thesis
      by (auto simp: pos_increment_def Let_def split: option.splits sum.splits if_splits dest!: Suc.IH)
  next
    case Factor
    with Suc.prems show ?thesis
      by (auto split: option.splits sum.splits dest!: Suc.IH)
  next
    case (Factor_loop left)
    with Suc.prems show ?thesis
      by (auto simp: pos_increment_def Let_def split: option.splits sum.splits if_splits dest!: Suc.IH)
  next
    case Power
    with Suc.prems show ?thesis
      by (auto simp: pos_increment_def Let_def split: option.splits sum.splits if_splits dest!: Suc.IH)
  next
    case Primary
    with Suc.prems show ?thesis
      by (auto simp: pos_increment_def Let_def split: option.splits sum.splits if_splits dest!: Suc.IH)
  qed
qed

declare descend.simps [simp del]

text \<open>One step of each function.\<close>

lemma descend_Expression:
  "descend A ts (Suc n) Expression pos =
     descend A ts n Term pos"
  by (simp add: descend.simps)

lemma descend_Term:
  "descend A ts (Suc n) Term pos =
     (case descend A ts n Factor pos of
             None \<Rightarrow> None
           | Some (Inl e) \<Rightarrow> Some (Inl e)
           | Some (Inr (left, pos1)) \<Rightarrow> descend A ts n (Term_loop left) pos1)"
  by (simp add: descend.simps)

lemma descend_Term_loop:
  "descend A ts (Suc n) (Term_loop left) pos =
     (if pos < length ts \<and> ttype (ts ! pos) \<in> {PLUS, MINUS} then
             (let op = ts ! pos in
              case descend A ts n Factor (pos_increment pos) of
                None \<Rightarrow> None
              | Some (Inl e) \<Rightarrow> Some (Inl e)
              | Some (Inr (right, pos1)) \<Rightarrow>
                  if ttype op = PLUS then
                    (case py_add A left right of
                       Inl e \<Rightarrow> Some (Inl e)
                     | Inr left1 \<Rightarrow> descend A ts n (Term_loop left1) pos1)
                  else if ttype op = MINUS then
                    (case py_sub A left right of
                       Inl e \<Rightarrow> Some (Inl e)
                     | Inr left1 \<Rightarrow> descend A ts n (Term_loop left1) pos1)
                  else descend A ts n (Term_loop left) pos1)
           else Some (Inr (left, pos)))"
  by (simp add: descend.simps)

lemma descend_Factor:
  "descend A ts (Suc n) Factor pos =
     (case descend A ts n Power pos of
             None \<Rightarrow> None
           | Some (Inl e) \<Rightarrow> Some (Inl e)
           | Some (Inr (left, pos1)) \<Rightarrow> descend A ts n (Factor_loop left) pos1)"
  by (simp add: descend.simps)

lemma descend_Factor_loop:
  "descend A ts (Suc n) (Factor_loop left) pos =
     (if pos < length ts \<and> ttype (ts ! pos) \<in> {MULTIPLY, DIVIDE, MODULO} then
             (let op = ts ! pos in
              case descend A ts n Power (pos_increment pos) of
                None \<Rightarrow> None
              | Some (Inl e) \<Rightarrow> Some (Inl e)
              | Some (Inr (right, pos1)) \<Rightarrow>
                  if ttype op = MULTIPLY then
                    (case py_mul A left right of
                       Inl e \<Rightarrow> Some (Inl e)
                     | Inr left1 \<Rightarrow> descend A ts n (Factor_loop left1) pos1)
                  else if ttype op = DIVIDE then
                    (case py_truediv A left right of
                       Inl e \<Rightarrow> Some (Inl e)
                     | Inr left1 \<Rightarrow> descend A ts n (Factor_loop left1) pos1)
                  else if ttype op = MODULO then
                    (case py_mod A left right of
                       Inl e \<Rightarrow> Some (Inl e)
                     | Inr left1 \<Rightarrow> descend A ts n (Factor_loop left1) pos1)
                  else descend A ts n (Factor_loop left) pos1)
           else Some (Inr (left, pos)))"
  by (simp add: descend.simps)

lemma descend_Power:
  "descend A ts (Suc n) Power pos =
     (case descend A ts n Primary pos of
             None \<Rightarrow> None
           | Some (Inl e) \<Rightarrow> Some (Inl e)
           | Some (Inr (left, pos1)) \<Rightarrow>
               if pos1 < length ts \<and> ttype (ts ! pos1) = POWER then
                 (case descend A ts n Power (pos_increment pos1) of
                    None \<Rightarrow> None
                  | Some (Inl e) \<Rightarrow> Some (Inl e)
                  | Some (Inr (right, pos2)) \<Rightarrow>
                      (case py_pow A left right of
                         Inl e \<Rightarrow> Some (Inl e)
                       | Inr v \<Rightarrow> Some (Inr (v, pos2))))
               else Some (Inr (left, pos1)))"
  by (simp add: descend.simps)

lemma descend_Primary:
  "descend A ts (Suc n) Primary pos =
     (if pos < length ts then
             (let token = ts ! pos; pos1 = pos_increment pos in
              if ttype token = INTEGER then
                (case py_int A (tvalue token) of
                   Inl e \<Rightarrow> Some (Inl e)
                 | Inr v \<Rightarrow> Some (Inr (v, pos1)))
              else if ttype token = FLOAT then
                (case py_float A (tvalue token) of
                   Inl e \<Rightarrow> Some (Inl e)
                 | Inr v \<Rightarrow> Some (Inr (v, pos1)))
              else if ttype token = IDENTIFIER then
                (if tvalue token = ''sin'' then
                   (if pos1 < length ts \<and> ttype (ts ! pos1) = LEFT_PAREN then
                      (case descend A ts n Expression (pos_increment pos1) of
                         None \<Rightarrow> None
                       | Some (Inl e) \<Rightarrow> Some (Inl e)
                       | Some (Inr (arg, pos2)) \<Rightarrow>
                           if pos2 < length ts \<and> ttype (ts ! pos2) = RIGHT_PAREN then
                             (case math_sin A arg of
                                Inl e \<Rightarrow> Some (Inl e)
                              | Inr v \<Rightarrow> Some (Inr (v, pos_increment pos2)))
                           else Some (Inr (py_zero A, pos2)))
                    else Some (Inr (py_zero A, pos1)))
                 else if tvalue token = ''cos'' then
                   (if pos1 < length ts \<and> ttype (ts ! pos1) = LEFT_PAREN then
                      (case descend A ts n Expression (pos_increment pos1) of
                         None \<Rightarrow> None
                       | Some (Inl e) \<Rightarrow> Some (Inl e)
                       | Some (Inr (arg, pos2)) \<Rightarrow>
                           if pos2 < length ts \<and> ttype (ts ! pos2) = RIGHT_PAREN then
                             (case math_cos A arg of
                                Inl e \<Rightarrow> Some (Inl e)
                              | Inr v \<Rightarrow> Some (Inr (v, pos_increment pos2)))
                           else Some (Inr (py_zero A, pos2)))
                    else Some (Inr (py_zero A, pos1)))
                 else Some (Inr (py_zero A, pos1)))
              else if ttype token = LEFT_PAREN then
                (case descend A ts n Expression pos1 of
                   None \<Rightarrow> None
                 | Some (Inl e) \<Rightarrow> Some (Inl e)
                 | Some (Inr (result, pos2)) \<Rightarrow>
                     if pos2 < length ts \<and> ttype (ts ! pos2) = RIGHT_PAREN then
                       Some (Inr (result, pos_increment pos2))
                     else Some (Inr (py_zero A, pos2)))
              else Some (Inr (py_zero A, pos1)))
           else Some (Inl IndexError))"
  by (simp add: descend.simps)


section \<open>The bound on the depth\<close>

text \<open>
  A larger bound does not change a result: \<open>le x y\<close> says that \<open>x\<close> is no result yet, or is
  the result \<open>y\<close>.
\<close>

definition le :: "'a option \<Rightarrow> 'a option \<Rightarrow> bool" where
  "le x y = (x = None \<or> x = y)"

lemma le_refl: "le x x"
  by (simp add: le_def)

lemma le_None: "le None y"
  by (simp add: le_def)

lemma le_bind:
  "le x y \<Longrightarrow> (\<And>v p. le (f v p) (g v p)) \<Longrightarrow>
   le (case x of None \<Rightarrow> None | Some (Inl e) \<Rightarrow> Some (Inl e) | Some (Inr (v, p)) \<Rightarrow> f v p)
      (case y of None \<Rightarrow> None | Some (Inl e) \<Rightarrow> Some (Inl e) | Some (Inr (v, p)) \<Rightarrow> g v p)"
  by (auto simp: le_def split: option.splits sum.splits)

lemma le_sum:
  "(\<And>v. le (f v) (g v)) \<Longrightarrow>
   le (case s of Inl e \<Rightarrow> Some (Inl e) | Inr v \<Rightarrow> f v)
      (case s of Inl e \<Rightarrow> Some (Inl e) | Inr v \<Rightarrow> g v)"
  by (auto simp: le_def split: sum.splits)

lemma le_if:
  "(c \<Longrightarrow> le a a') \<Longrightarrow> (\<not> c \<Longrightarrow> le b b') \<Longrightarrow> le (if c then a else b) (if c then a' else b')"
  by simp

lemmas le_rules = le_refl le_bind le_sum le_if

lemma descend_le_Suc: "le (descend A ts n r pos) (descend A ts (Suc n) r pos)"
proof (induction n arbitrary: r pos)
  case 0
  show ?case by (simp add: descend.simps le_None)
next
  case (Suc n)
  show ?case
  proof (cases r)
    case Expression
    show ?thesis unfolding Expression
      by (subst descend_Expression[of A ts "Suc n" pos], subst descend_Expression[of A ts n pos])
        (rule Suc)
  next
    case Term
    show ?thesis unfolding Term
      by (subst descend_Term[of A ts "Suc n" pos], subst descend_Term[of A ts n pos])
        (intro le_rules Suc)
  next
    case (Term_loop left)
    show ?thesis unfolding Term_loop
      by (subst descend_Term_loop[of A ts "Suc n" left pos],
          subst descend_Term_loop[of A ts n left pos], unfold Let_def)
        (intro le_rules Suc)
  next
    case Factor
    show ?thesis unfolding Factor
      by (subst descend_Factor[of A ts "Suc n" pos], subst descend_Factor[of A ts n pos])
        (intro le_rules Suc)
  next
    case (Factor_loop left)
    show ?thesis unfolding Factor_loop
      by (subst descend_Factor_loop[of A ts "Suc n" left pos],
          subst descend_Factor_loop[of A ts n left pos], unfold Let_def)
        (intro le_rules Suc)
  next
    case Power
    show ?thesis unfolding Power
      by (subst descend_Power[of A ts "Suc n" pos], subst descend_Power[of A ts n pos])
        (intro le_rules Suc)
  next
    case Primary
    show ?thesis unfolding Primary
      by (subst descend_Primary[of A ts "Suc n" pos], subst descend_Primary[of A ts n pos],
          unfold Let_def)
        (intro le_rules Suc)
  qed
qed

lemma descend_Suc:
  "descend A ts n r pos = Some x \<Longrightarrow> descend A ts (Suc n) r pos = Some x"
  using descend_le_Suc[of A ts n r pos] by (simp add: le_def)

lemma descend_mono:
  "n \<le> m \<Longrightarrow> descend A ts n r pos = Some x \<Longrightarrow> descend A ts m r pos = Some x"
  by (induction m) (auto simp: le_Suc_eq descend_Suc)

text \<open>
  A bound that is enough: every function of the evaluator returns or raises when the
  bound is at least seven times the number of the tokens that are left, plus the rank of
  the function in the chain of calls.
\<close>

fun rank :: "'v rule \<Rightarrow> nat" where
  "rank Expression = 7"
| "rank Term = 6"
| "rank (Term_loop left) = 5"
| "rank Factor = 4"
| "rank (Factor_loop left) = 3"
| "rank Power = 2"
| "rank Primary = 1"

lemma nn_bind:
  "x \<noteq> None \<Longrightarrow> (\<And>v p. x = Some (Inr (v, p)) \<Longrightarrow> f v p \<noteq> None) \<Longrightarrow>
   (case x of None \<Rightarrow> None | Some (Inl e) \<Rightarrow> Some (Inl e) | Some (Inr (v, p)) \<Rightarrow> f v p) \<noteq> None"
  by (auto split: option.splits sum.splits)

lemma nn_sum:
  "(\<And>v. f v \<noteq> None) \<Longrightarrow> (case s of Inl e \<Rightarrow> Some (Inl e) | Inr v \<Rightarrow> f v) \<noteq> None"
  by (auto split: sum.splits)

lemma nn_if:
  "(c \<Longrightarrow> a \<noteq> None) \<Longrightarrow> (\<not> c \<Longrightarrow> b \<noteq> None) \<Longrightarrow> (if c then a else b) \<noteq> None"
  by simp

lemma nn_Some: "Some y \<noteq> None"
  by simp

lemmas nn_rules = nn_Some nn_bind nn_sum nn_if

lemma descend_enough:
  "7 * (length ts - pos) + rank r \<le> n \<Longrightarrow> descend A ts n r pos \<noteq> None"
proof (induction n arbitrary: r pos)
  case 0
  then show ?case by (cases r) simp_all
next
  case (Suc n)
  note IH = Suc.IH
  show ?case
  proof (cases r)
    case Expression
    from Suc.prems show ?thesis unfolding Expression
      by (subst descend_Expression) (auto intro!: IH simp del: not_None_eq)
  next
    case Term
    from Suc.prems show ?thesis unfolding Term
      apply (subst descend_Term)
      apply (intro nn_rules)
       apply (auto dest!: cursor intro!: IH simp del: not_None_eq)
      done
  next
    case (Term_loop left)
    from Suc.prems show ?thesis unfolding Term_loop
      apply (subst descend_Term_loop)
      apply (unfold Let_def)
      apply (intro nn_rules)
       apply (auto dest!: cursor intro!: IH simp: pos_increment_def simp del: not_None_eq)
      done
  next
    case Factor
    from Suc.prems show ?thesis unfolding Factor
      apply (subst descend_Factor)
      apply (intro nn_rules)
       apply (auto dest!: cursor intro!: IH simp del: not_None_eq)
      done
  next
    case (Factor_loop left)
    from Suc.prems show ?thesis unfolding Factor_loop
      apply (subst descend_Factor_loop)
      apply (unfold Let_def)
      apply (intro nn_rules)
       apply (auto dest!: cursor intro!: IH simp: pos_increment_def simp del: not_None_eq)
      done
  next
    case Power
    from Suc.prems show ?thesis unfolding Power
      apply (subst descend_Power)
      apply (intro nn_rules)
       apply (auto dest!: cursor intro!: IH simp: pos_increment_def simp del: not_None_eq)
      done
  next
    case Primary
    from Suc.prems show ?thesis unfolding Primary
      apply (subst descend_Primary)
      apply (unfold Let_def)
      apply (intro nn_rules)
       apply (auto dest!: cursor intro!: IH simp: pos_increment_def simp del: not_None_eq)
      done
  qed
qed

lemma calculate_returns: "\<exists>r. calculate A ts = Some r"
proof -
  have "descend A ts (fuel ts) Expression 0 \<noteq> None"
    by (rule descend_enough) (simp add: fuel_def)
  then show ?thesis
    by (auto simp: calculate_def expression_def split: option.splits sum.splits)
qed

section \<open>The arithmetic of Python\<close>

text \<open>
  A host for the examples: the part of the arithmetic of Python on \<^verbatim>\<open>int\<close> and \<^verbatim>\<open>float\<close>
  that can be stated exactly. Where Python would round, overflow, call the C library or
  produce a complex number, the host gives no answer: it returns the error
  \<open>Unmodelled\<close>, which is not an exception of Python.
\<close>

datatype num = PInt int | PFloat rat

text \<open>
  A value \<open>PFloat q\<close> is the finite double whose value is the rational \<open>q\<close> (the sign of
  a zero is not kept). \<open>is_double q\<close> is a sufficient condition for \<open>q\<close> to be a double:
  in lowest terms its numerator is below \<open>2^53\<close> in absolute value and its denominator is
  a power of two up to \<open>2^1022\<close>.
\<close>

fun pow2_upto :: "nat \<Rightarrow> int \<Rightarrow> bool" where
  "pow2_upto 0 b = (b = 1)"
| "pow2_upto (Suc k) b = (b = 1 \<or> (even b \<and> pow2_upto k (b div 2)))"

definition is_double :: "rat \<Rightarrow> bool" where
  "is_double q = (case quotient_of q of (a, b) \<Rightarrow> \<bar>a\<bar> < 2 ^ 53 \<and> pow2_upto 1022 b)"

text \<open>
  The result of an operation on doubles is the exact result rounded, so it is the exact
  result when that is a double; \<open>fl\<close> gives no answer otherwise. An integer operand of a
  mixed operation is converted to a double first.
\<close>

definition fl :: "rat \<Rightarrow> error + num" where
  "fl q = (if is_double q then Inr (PFloat q) else Inl Unmodelled)"

fun to_float :: "num \<Rightarrow> error + rat" where
  "to_float (PFloat q) = Inr q"
| "to_float (PInt a) = (if is_double (of_int a) then Inr (of_int a) else Inl Unmodelled)"

definition float_op :: "(rat \<Rightarrow> rat \<Rightarrow> error + num) \<Rightarrow> num \<Rightarrow> num \<Rightarrow> error + num" where
  "float_op f x y =
     (case to_float x of
        Inl e \<Rightarrow> Inl e
      | Inr a \<Rightarrow> (case to_float y of Inl e \<Rightarrow> Inl e | Inr b \<Rightarrow> f a b))"

text \<open>
  The operators of Python on integers and doubles. Integer arithmetic is exact; \<^verbatim>\<open>/\<close> is
  true division and \<^verbatim>\<open>%\<close> takes the sign of the divisor, and both raise
  \<^verbatim>\<open>ZeroDivisionError\<close> on a zero divisor; \<^verbatim>\<open>**\<close> is modelled on integers only.
\<close>

fun python_add :: "num \<Rightarrow> num \<Rightarrow> error + num" where
  "python_add (PInt a) (PInt b) = Inr (PInt (a + b))"
| "python_add x y = float_op (\<lambda>a b. fl (a + b)) x y"

fun python_sub :: "num \<Rightarrow> num \<Rightarrow> error + num" where
  "python_sub (PInt a) (PInt b) = Inr (PInt (a - b))"
| "python_sub x y = float_op (\<lambda>a b. fl (a - b)) x y"

fun python_mul :: "num \<Rightarrow> num \<Rightarrow> error + num" where
  "python_mul (PInt a) (PInt b) = Inr (PInt (a * b))"
| "python_mul x y = float_op (\<lambda>a b. fl (a * b)) x y"

fun python_truediv :: "num \<Rightarrow> num \<Rightarrow> error + num" where
  "python_truediv (PInt a) (PInt b) =
     (if b = 0 then Inl ZeroDivisionError else fl (of_int a / of_int b))"
| "python_truediv x y =
     float_op (\<lambda>a b. if b = 0 then Inl ZeroDivisionError else fl (a / b)) x y"

fun python_mod :: "num \<Rightarrow> num \<Rightarrow> error + num" where
  "python_mod (PInt a) (PInt b) =
     (if b = 0 then Inl ZeroDivisionError else Inr (PInt (a mod b)))"
| "python_mod x y =
     float_op (\<lambda>a b. if b = 0 then Inl ZeroDivisionError
                     else fl (a - b * of_int \<lfloor>a / b\<rfloor>)) x y"

fun python_pow :: "num \<Rightarrow> num \<Rightarrow> error + num" where
  "python_pow (PInt a) (PInt b) =
     (if 0 \<le> b then Inr (PInt (a ^ nat b))
      else if a = 0 then Inl ZeroDivisionError
      else Inl Unmodelled)"
| "python_pow x y = Inl Unmodelled"

text \<open>
  \<^verbatim>\<open>int(s)\<close> and \<^verbatim>\<open>float(s)\<close> on the lexemes that the lexer writes with ASCII digits, and
  \<^verbatim>\<open>math.sin\<close> and \<^verbatim>\<open>math.cos\<close> at zero.
\<close>

definition ascii_digit :: "char \<Rightarrow> bool" where
  "ascii_digit c = (48 \<le> code c \<and> code c \<le> 57)"

definition decimal :: "string \<Rightarrow> int" where
  "decimal s = foldl (\<lambda>a c. 10 * a + (int (code c) - 48)) 0 s"

definition python_int :: "string \<Rightarrow> error + num" where
  "python_int s =
     (if s \<noteq> [] \<and> list_all ascii_digit s \<and> length s \<le> 4300 then Inr (PInt (decimal s))
      else Inl Unmodelled)"

definition python_float :: "string \<Rightarrow> error + num" where
  "python_float s =
     (let ip = takeWhile ascii_digit s; r = dropWhile ascii_digit s;
          fp = (if r = [] then [] else tl r)
      in if (r = [] \<or> hd r = CHR ''.'') \<and> list_all ascii_digit fp \<and> ip @ fp \<noteq> []
         then fl (of_int (decimal (ip @ fp)) / 10 ^ length fp)
         else Inl Unmodelled)"

definition python_sin :: "num \<Rightarrow> error + num" where
  "python_sin x =
     (case to_float x of
        Inl e \<Rightarrow> Inl e
      | Inr a \<Rightarrow> if a = 0 then Inr (PFloat 0) else Inl Unmodelled)"

definition python_cos :: "num \<Rightarrow> error + num" where
  "python_cos x =
     (case to_float x of
        Inl e \<Rightarrow> Inl e
      | Inr a \<Rightarrow> if a = 0 then Inr (PFloat 1) else Inl Unmodelled)"

definition python :: "num host" where
  "python =
     \<lparr>py_int = python_int, py_float = python_float, py_zero = PInt 0,
      py_add = python_add, py_sub = python_sub, py_mul = python_mul,
      py_truediv = python_truediv, py_mod = python_mod, py_pow = python_pow,
      math_sin = python_sin, math_cos = python_cos\<rparr>"

text \<open>
  What \<^verbatim>\<open>main\<close> does with an expression: it scans the source, removes the last token
  (\<^verbatim>\<open>calc_tokens[:-1]\<close>) and calls \<^verbatim>\<open>calculate\<close>.
\<close>

definition evaluate_source :: "'v host \<Rightarrow> string \<Rightarrow> (error + 'v) option" where
  "evaluate_source A src =
     (case tokenize src of
        Inl e \<Rightarrow> Some (Inl e)
      | Inr toks \<Rightarrow> calculate A (butlast toks))"

section \<open>Precedence and associativity\<close>


section \<open>Division by zero\<close>

text \<open>A token at line 1 and column 1, for examples that do not come from a source text.\<close>

definition tok :: "TokenType \<Rightarrow> string \<Rightarrow> Token" where
  "tok ty v = \<lparr>ttype = ty, tvalue = v, tline = 1, tcolumn = 1\<rparr>"




section \<open>A token that cannot start a primary\<close>

lemma unknown_function_value:
  "evaluate_source python ''foo(1)'' = Some (Inr (PInt 0))"
  by code_simp

text \<open>
  Claim C1 says that an identifier that is not a recognized function, or any other token
  that cannot start a primary, makes the evaluator signal a failure and never return a
  default value. On the tokens of \<^verbatim>\<open>foo(1)\<close> the evaluator raises nothing: it returns 0.
\<close>

theorem unknown_function_counterexample:
  "\<not> (\<exists>e. evaluate_source python ''foo(1)'' = Some (Inl e))"
  by (simp add: unknown_function_value)

text \<open>
  Claim C1 as amended: where a primary is expected and the token is an identifier other
  than \<^verbatim>\<open>sin\<close> and \<^verbatim>\<open>cos\<close>, or is not of the kinds \<^verbatim>\<open>INTEGER\<close>, \<^verbatim>\<open>FLOAT\<close>, \<^verbatim>\<open>IDENTIFIER\<close> and
  \<^verbatim>\<open>LEFT_PAREN\<close>, the function \<^verbatim>\<open>primary\<close> consumes that one token and returns the integer 0;
  it signals no failure. The tokens of \<^verbatim>\<open>foo(1)\<close> evaluate to 0.
\<close>

theorem primary_returns_zero:
  "(pos < length ts \<and>
    ((ttype (ts ! pos) = IDENTIFIER \<and> tvalue (ts ! pos) \<noteq> ''sin'' \<and> tvalue (ts ! pos) \<noteq> ''cos'') \<or>
     ttype (ts ! pos) \<notin> {INTEGER, FLOAT, IDENTIFIER, LEFT_PAREN}) \<longrightarrow>
    primary A ts (Suc n) pos = Some (Inr (py_zero A, pos + 1))) \<and>
   evaluate_source python ''foo(1)'' = Some (Inr (PInt 0))"
  by (auto simp: unknown_function_value evaluator_equations(14) Let_def pos_increment_def)

theorem primary_returns_zero_witness:
  "0 < length [tok IDENTIFIER ''foo'', tok LEFT_PAREN ''(''] \<and>
   ttype ([tok IDENTIFIER ''foo'', tok LEFT_PAREN ''(''] ! 0) = IDENTIFIER \<and>
   tvalue ([tok IDENTIFIER ''foo'', tok LEFT_PAREN ''(''] ! 0) \<noteq> ''sin'' \<and>
   tvalue ([tok IDENTIFIER ''foo'', tok LEFT_PAREN ''(''] ! 0) \<noteq> ''cos'' \<and>
   primary python [tok IDENTIFIER ''foo'', tok LEFT_PAREN ''(''] (Suc 0) 0 = Some (Inr (PInt 0, 1))"
  using primary_returns_zero[of 0 "[tok IDENTIFIER ''foo'', tok LEFT_PAREN ''('']" python 0]
  by (simp add: tok_def python_def)

section \<open>The cursor and the end of the tokens\<close>







section \<open>The list of built-in functions\<close>

text \<open>
  No function of the lexer reads the attribute \<^verbatim>\<open>built_in_functions\<close>: a lexer with another
  list there does the same, step by step.
\<close>

lemma moved_built_in:
  "moved (L\<lparr>built_in_functions := bs\<rparr>) k l c new = (moved L k l c new)\<lparr>built_in_functions := bs\<rparr>"
  by (simp add: moved_def)

lemma add_token_built_in:
  "add_token (L\<lparr>built_in_functions := bs\<rparr>) ty v = (add_token L ty v)\<lparr>built_in_functions := bs\<rparr>"
  by (simp add: add_token_def Let_def)

lemma identifier_built_in:
  "identifier' (L\<lparr>built_in_functions := bs\<rparr>)
     = map_sum id (\<lambda>L'. L'\<lparr>built_in_functions := bs\<rparr>) (identifier' L)"
  by (simp add: identifier'_def identifier_loop_moved moved_built_in add_token_built_in Let_def
      split: option.split)

lemma number_built_in:
  "number (L\<lparr>built_in_functions := bs\<rparr>) fc
     = map_sum id (\<lambda>L'. L'\<lparr>built_in_functions := bs\<rparr>) (number L fc)"
  by (simp add: number_def number_loop_moved moved_built_in add_token_built_in Let_def)

lemma comment_built_in:
  "comment_loop (L\<lparr>built_in_functions := bs\<rparr>)
     = map_sum id (\<lambda>L'. L'\<lparr>built_in_functions := bs\<rparr>) (comment_loop L)"
  by (simp add: comment_loop_moved moved_built_in)

lemma advance_built_in:
  "advance (L\<lparr>built_in_functions := bs\<rparr>)
     = map_sum id (map_prod id (\<lambda>L'. L'\<lparr>built_in_functions := bs\<rparr>)) (advance L)"
  by (simp add: advance_def Let_def)

lemma match_built_in:
  "match (L\<lparr>built_in_functions := bs\<rparr>) e
     = map_prod id (\<lambda>L'. L'\<lparr>built_in_functions := bs\<rparr>) (match L e)"
  by (simp add: match_def is_at_end_def)

lemma peek_built_in: "peek (L\<lparr>built_in_functions := bs\<rparr>) = peek L"
  by (simp add: peek_def is_at_end_def)

lemma bang_built_in:
  "(case match (L\<lparr>built_in_functions := bs\<rparr>) e of
      (True, L') \<Rightarrow> Inr (add_token L' NOT_EQUAL v)
    | (False, L') \<Rightarrow> Inr (add_token L' ty c))
   = map_sum id (\<lambda>L'. L'\<lparr>built_in_functions := bs\<rparr>)
       (case match L e of
          (True, L') \<Rightarrow> Inr (add_token L' NOT_EQUAL v)
        | (False, L') \<Rightarrow> Inr (add_token L' ty c))"
  by (simp add: match_def is_at_end_def add_token_def Let_def)

lemma scan_token_built_in:
  "scan_token (L\<lparr>built_in_functions := bs\<rparr>)
     = map_sum id (\<lambda>L'. L'\<lparr>built_in_functions := bs\<rparr>) (scan_token L)"
proof (cases "advance L")
  case (Inl e)
  then show ?thesis by (simp add: scan_token_def advance_built_in)
next
  case (Inr cl)
  obtain c L1 where cl: "cl = (c, L1)" by (cases cl)
  show ?thesis
    using Inr cl
    by (simp add: scan_token_def advance_built_in comment_built_in identifier_built_in
        number_built_in bang_built_in peek_built_in add_token_built_in
        if_distrib[where f = "map_sum id (\<lambda>L'. L'\<lparr>built_in_functions := bs\<rparr>)"]
        option.case_distrib[where h = "map_sum id (\<lambda>L'. L'\<lparr>built_in_functions := bs\<rparr>)"]
        split del: if_split cong: if_cong option.case_cong)
qed

lemma scan_tokens_built_in:
  "scan_tokens (L\<lparr>built_in_functions := bs\<rparr>) = scan_tokens L"
proof (induction L rule: scan_tokens.induct)
  case (1 L)
  show ?case
  proof (cases "is_at_end L")
    case True
    then show ?thesis
      by (subst (1 2) scan_tokens.simps) (simp add: is_at_end_def add_token_def)
  next
    case False
    show ?thesis
    proof (cases "scan_token L")
      case (Inl e)
      with False show ?thesis
        by (subst (1 2) scan_tokens.simps) (simp add: is_at_end_def scan_token_built_in)
    next
      case (Inr L')
      with False 1[OF False Inr] show ?thesis
        by (subst (1 2) scan_tokens.simps) (simp add: is_at_end_def scan_token_built_in)
    qed
  qed
qed

lemma other_built_ins_value:
  "evaluate_source python ''tan(1)'' = Some (Inr (PInt 0))"
  "evaluate_source python ''sqrt(4)'' = Some (Inr (PInt 0))"
  "evaluate_source python ''ln(1)'' = Some (Inr (PInt 0))"
  "evaluate_source python ''exp(1)'' = Some (Inr (PInt 0))"
  by code_simp+

text \<open>
  Claim C9: the list \<^verbatim>\<open>built_in_functions\<close> of the lexer is consulted nowhere. Scanning does
  not depend on it, and \<^verbatim>\<open>calculate\<close> receives the tokens only. The evaluator singles out
  the lexemes \<^verbatim>\<open>sin\<close> and \<^verbatim>\<open>cos\<close>; any other identifier, \<^verbatim>\<open>tan\<close>, \<^verbatim>\<open>sqrt\<close>, \<^verbatim>\<open>ln\<close> and \<^verbatim>\<open>exp\<close>
  among them, falls to the default branch of \<^verbatim>\<open>primary\<close>: the identifier is consumed, the
  value is 0, and the named function is not applied.
\<close>

theorem built_in_functions_unused:
  "scan_tokens (L\<lparr>built_in_functions := bs\<rparr>) = scan_tokens L \<and>
   (pos < length ts \<and> ttype (ts ! pos) = IDENTIFIER \<and>
    tvalue (ts ! pos) \<noteq> ''sin'' \<and> tvalue (ts ! pos) \<noteq> ''cos'' \<longrightarrow>
    primary A ts (Suc n) pos = Some (Inr (py_zero A, pos + 1))) \<and>
   evaluate_source python ''tan(1)'' = Some (Inr (PInt 0)) \<and>
   evaluate_source python ''sqrt(4)'' = Some (Inr (PInt 0)) \<and>
   evaluate_source python ''ln(1)'' = Some (Inr (PInt 0)) \<and>
   evaluate_source python ''exp(1)'' = Some (Inr (PInt 0))"
  by (auto simp: scan_tokens_built_in other_built_ins_value evaluator_equations(14) Let_def
      pos_increment_def)

theorem built_in_functions_unused_witness:
  "scan_tokens ((Lexer_init ''tan(1)'')\<lparr>built_in_functions := []\<rparr>)
     = scan_tokens (Lexer_init ''tan(1)'') \<and>
   0 < length [tok IDENTIFIER ''tan'', tok LEFT_PAREN ''(''] \<and>
   ttype ([tok IDENTIFIER ''tan'', tok LEFT_PAREN ''(''] ! 0) = IDENTIFIER \<and>
   tvalue ([tok IDENTIFIER ''tan'', tok LEFT_PAREN ''(''] ! 0) \<noteq> ''sin'' \<and>
   tvalue ([tok IDENTIFIER ''tan'', tok LEFT_PAREN ''(''] ! 0) \<noteq> ''cos'' \<and>
   primary python [tok IDENTIFIER ''tan'', tok LEFT_PAREN ''(''] (Suc 0) 0 = Some (Inr (PInt 0, 1))"
  using built_in_functions_unused[where L = "Lexer_init ''tan(1)''" and bs = "[]" and pos = 0
      and ts = "[tok IDENTIFIER ''tan'', tok LEFT_PAREN ''('']" and A = python and n = 0]
  by (simp add: tok_def python_def)

section \<open>The tokens after the expression\<close>

text \<open>
  The evaluator looks at no token beyond the position where it stops: two lists of tokens
  that are the same up to and including the position \<open>p0\<close> give the same result, when
  that result leaves the position at \<open>p0\<close> or before.
\<close>

definition agree :: "Token list \<Rightarrow> Token list \<Rightarrow> nat \<Rightarrow> bool" where
  "agree ts us p0 = (take (Suc p0) us = take (Suc p0) ts)"

lemma agree_length: "agree ts us p0 \<Longrightarrow> q \<le> p0 \<Longrightarrow> (q < length us) = (q < length ts)"
proof -
  assume a: "agree ts us p0" and q: "q \<le> p0"
  from a have "length (take (Suc p0) us) = length (take (Suc p0) ts)"
    by (simp add: agree_def)
  with q show ?thesis by (auto simp: min_def split: if_splits)
qed

lemma agree_nth: "agree ts us p0 \<Longrightarrow> q \<le> p0 \<Longrightarrow> us ! q = ts ! q"
proof -
  assume a: "agree ts us p0" and q: "q \<le> p0"
  have "us ! q = take (Suc p0) us ! q" using q by simp
  also have "\<dots> = take (Suc p0) ts ! q" using a by (simp add: agree_def)
  also have "\<dots> = ts ! q" using q by simp
  finally show ?thesis .
qed

lemmas asm_splits = if_split_asm option.split_asm sum.split_asm prod.split_asm

lemma locality:
  assumes ag: "agree ts us p0"
  shows "descend A ts n r pos = Some (Inr (v, p)) \<Longrightarrow> p \<le> p0 \<Longrightarrow>
         descend A us n r pos = Some (Inr (v, p))"
proof (induction n arbitrary: r pos v p)
  case 0
  then show ?case by (simp add: descend.simps)
next
  case (Suc n)
  have D: "(if is_loop r then q \<le> p \<and> (q \<le> length ts \<longrightarrow> p \<le> length ts) else q < p \<and> p \<le> length ts)
           \<and> (p \<le> p0 \<longrightarrow> descend A us n r q = Some (Inr (v, p)))"
    if "descend A ts n r q = Some (Inr (v, p))" for r q v p
    using that cursor[OF that] Suc.IH[OF that] by simp
  from cursor[OF Suc.prems(1)] Suc.prems(2) have pos: "pos \<le> p0"
    by (auto split: if_splits)
  note ag_simps = agree_length[OF ag] agree_nth[OF ag]
  show ?case
  proof (cases r)
    case Expression
    from Suc.prems show ?thesis unfolding Expression
      apply (subst descend_Expression[of A us n pos])
      apply (subst (asm) descend_Expression[of A ts n pos])
      apply (auto dest!: D)
      done
  next
    case Term
    from Suc.prems pos show ?thesis unfolding Term
      apply (subst descend_Term[of A us n pos])
      apply (subst (asm) descend_Term[of A ts n pos])
      apply (auto simp: Let_def pos_increment_def ag_simps split: asm_splits
          split del: if_split dest!: D)
      done
  next
    case (Term_loop left)
    from Suc.prems pos show ?thesis unfolding Term_loop
      apply (subst descend_Term_loop[of A us n left pos])
      apply (subst (asm) descend_Term_loop[of A ts n left pos])
      apply (auto simp: Let_def pos_increment_def ag_simps split: asm_splits
          split del: if_split dest!: D)
      done
  next
    case Factor
    from Suc.prems pos show ?thesis unfolding Factor
      apply (subst descend_Factor[of A us n pos])
      apply (subst (asm) descend_Factor[of A ts n pos])
      apply (auto simp: Let_def pos_increment_def ag_simps split: asm_splits
          split del: if_split dest!: D)
      done
  next
    case (Factor_loop left)
    from Suc.prems pos show ?thesis unfolding Factor_loop
      apply (subst descend_Factor_loop[of A us n left pos])
      apply (subst (asm) descend_Factor_loop[of A ts n left pos])
      apply (auto simp: Let_def pos_increment_def ag_simps split: asm_splits
          split del: if_split dest!: D)
      done
  next
    case Power
    from Suc.prems pos show ?thesis unfolding Power
      apply (subst descend_Power[of A us n pos])
      apply (subst (asm) descend_Power[of A ts n pos])
      apply (auto simp: Let_def pos_increment_def ag_simps split: asm_splits
          split del: if_split dest!: D)
      done
  next
    case Primary
    from Suc.prems pos show ?thesis unfolding Primary
      apply (subst descend_Primary[of A us n pos])
      apply (subst (asm) descend_Primary[of A ts n pos])
      apply (auto simp: Let_def pos_increment_def ag_simps split: asm_splits
          split del: if_split dest!: D)
      done
  qed
qed

lemma descend_fuel_indep:
  assumes "7 * (length ts - pos) + rank r \<le> n" and m: "descend A ts m r pos = Some x"
  shows "descend A ts n r pos = Some x"
proof (cases "m \<le> n")
  case True
  then show ?thesis using m by (rule descend_mono)
next
  case False
  from descend_enough[OF assms(1), of A] obtain y where y: "descend A ts n r pos = Some y"
    by auto
  from False have "n \<le> m" by simp
  from descend_mono[OF this y] m show ?thesis using y by simp
qed

lemma prefix_counterexample_values:
  "calculate python [tok INTEGER ''2''] = Some (Inr (PInt 2))"
  "calculate python [tok INTEGER ''2'', tok PLUS ''+'', tok INTEGER ''3''] = Some (Inr (PInt 5))"
  by code_simp+

text \<open>
  Claim C10 says that whenever a proper prefix of the tokens parses as a complete
  expression, the evaluation returns the value of that prefix and ignores the rest. The
  first token of \<^verbatim>\<open>2 + 3\<close> parses as a complete expression of value 2, and the value of the
  three tokens is 5.
\<close>

theorem prefix_value_counterexample:
  "1 < length [tok INTEGER ''2'', tok PLUS ''+'', tok INTEGER ''3''] \<and>
   calculate python (take 1 [tok INTEGER ''2'', tok PLUS ''+'', tok INTEGER ''3''])
     = Some (Inr (PInt 2)) \<and>
   calculate python [tok INTEGER ''2'', tok PLUS ''+'', tok INTEGER ''3'']
     \<noteq> Some (Inr (PInt 2))"
  by (simp add: prefix_counterexample_values)

lemma two_numbers_value: "evaluate_source python ''2 3'' = Some (Inr (PInt 2))"
  by code_simp

text \<open>
  Claim C10 as amended: the evaluator does not require that all tokens are consumed. When
  \<^verbatim>\<open>expression\<close> returns a value and leaves the cursor at \<open>p\<close>, \<^verbatim>\<open>calculate\<close> returns that value
  whether or not tokens remain, and the tokens after the one at \<open>p\<close> are never examined:
  every list of tokens that is the same up to and including the position \<open>p\<close> evaluates to
  the same value with the cursor at \<open>p\<close>, and nothing is raised for the other tokens. The
  tokens of \<^verbatim>\<open>2 3\<close> evaluate to 2.
\<close>

theorem trailing_tokens_ignored:
  "(expression A ts (fuel ts) 0 = Some (Inr (v, p)) \<and> take (Suc p) us = take (Suc p) ts \<longrightarrow>
      p \<le> length ts \<and> calculate A ts = Some (Inr v) \<and>
      expression A us (fuel us) 0 = Some (Inr (v, p)) \<and> calculate A us = Some (Inr v)) \<and>
   evaluate_source python ''2 3'' = Some (Inr (PInt 2))"
proof (intro conjI impI)
  assume H: "expression A ts (fuel ts) 0 = Some (Inr (v, p)) \<and> take (Suc p) us = take (Suc p) ts"
  then have t: "descend A ts (fuel ts) Expression 0 = Some (Inr (v, p))"
    and ag: "agree ts us p"
    by (simp_all add: expression_def agree_def)
  from cursor[OF t] show "p \<le> length ts" by simp
  from H show "calculate A ts = Some (Inr v)" by (simp add: calculate_def)
  from locality[OF ag t] have "descend A us (fuel ts) Expression 0 = Some (Inr (v, p))"
    by simp
  then have "descend A us (fuel us) Expression 0 = Some (Inr (v, p))"
    by (rule descend_fuel_indep[rotated]) (simp add: fuel_def)
  then show "expression A us (fuel us) 0 = Some (Inr (v, p))" "calculate A us = Some (Inr v)"
    by (simp_all add: expression_def calculate_def)
qed (rule two_numbers_value)

theorem trailing_tokens_ignored_witness:
  "expression python [tok INTEGER ''2'', tok INTEGER ''3'']
      (fuel [tok INTEGER ''2'', tok INTEGER ''3'']) 0 = Some (Inr (PInt 2, 1)) \<and>
   take (Suc 1) [tok INTEGER ''2'', tok INTEGER ''3'', tok PLUS ''+'', tok INTEGER ''4'']
     = take (Suc 1) [tok INTEGER ''2'', tok INTEGER ''3''] \<and>
   1 \<le> length [tok INTEGER ''2'', tok INTEGER ''3''] \<and>
   calculate python [tok INTEGER ''2'', tok INTEGER ''3''] = Some (Inr (PInt 2)) \<and>
   expression python [tok INTEGER ''2'', tok INTEGER ''3'', tok PLUS ''+'', tok INTEGER ''4'']
      (fuel [tok INTEGER ''2'', tok INTEGER ''3'', tok PLUS ''+'', tok INTEGER ''4'']) 0
     = Some (Inr (PInt 2, 1)) \<and>
   calculate python [tok INTEGER ''2'', tok INTEGER ''3'', tok PLUS ''+'', tok INTEGER ''4'']
     = Some (Inr (PInt 2))"
proof -
  let ?ts = "[tok INTEGER ''2'', tok INTEGER ''3'']"
  let ?us = "[tok INTEGER ''2'', tok INTEGER ''3'', tok PLUS ''+'', tok INTEGER ''4'']"
  have a: "expression python ?ts (fuel ?ts) 0 = Some (Inr (PInt 2, 1))" by code_simp
  have b: "take (Suc 1) ?us = take (Suc 1) ?ts" by simp
  from trailing_tokens_ignored[of python ?ts "PInt 2" 1 ?us] a b
  show ?thesis by simp
qed

section \<open>The evaluator without the bound\<close>

definition bound :: "Token list \<Rightarrow> 'v rule \<Rightarrow> nat \<Rightarrow> nat" where
  "bound ts r pos = 7 * (length ts - pos) + rank r"

definition run :: "'v host \<Rightarrow> Token list \<Rightarrow> 'v rule \<Rightarrow> nat \<Rightarrow> (error + 'v \<times> nat) option" where
  "run A ts r pos = descend A ts (bound ts r pos) r pos"

lemma run_eq: "bound ts r pos \<le> n \<Longrightarrow> descend A ts n r pos = run A ts r pos"
proof -
  assume b: "bound ts r pos \<le> n"
  obtain y where y: "run A ts r pos = Some y"
    using descend_enough[of ts pos r "bound ts r pos" A] by (auto simp: run_def bound_def)
  then have "descend A ts n r pos = Some y"
    using descend_mono[OF b, of A ts r pos y] by (simp add: run_def)
  with y show ?thesis by simp
qed

lemma run_cursor:
  "run A ts r pos = Some (Inr (v, p)) \<Longrightarrow>
     (if is_loop r then pos \<le> p \<and> (pos \<le> length ts \<longrightarrow> p \<le> length ts)
      else pos < p \<and> p \<le> length ts)"
  unfolding run_def by (rule cursor)

lemma eq_bind:
  "x = y \<Longrightarrow> (\<And>v p. y = Some (Inr (v, p)) \<Longrightarrow> f v p = g v p) \<Longrightarrow>
   (case x of None \<Rightarrow> None | Some (Inl e) \<Rightarrow> Some (Inl e) | Some (Inr (v, p)) \<Rightarrow> f v p)
   = (case y of None \<Rightarrow> None | Some (Inl e) \<Rightarrow> Some (Inl e) | Some (Inr (v, p)) \<Rightarrow> g v p)"
  by (auto split: option.splits sum.splits)

lemma eq_sum:
  "(\<And>v. f v = g v) \<Longrightarrow>
   (case s of Inl e \<Rightarrow> Some (Inl e) | Inr v \<Rightarrow> f v)
   = (case s of Inl e \<Rightarrow> Some (Inl e) | Inr v \<Rightarrow> g v)"
  by (auto split: sum.splits)

lemma eq_if:
  "(c \<Longrightarrow> a = a') \<Longrightarrow> (\<not> c \<Longrightarrow> b = b') \<Longrightarrow> (if c then a else b) = (if c then a' else b')"
  by simp

lemmas eq_rules = refl eq_bind eq_sum eq_if

lemma run_Expression:
  "run A ts Expression pos =
     run A ts Term pos"
proof -
  have b: "bound ts Expression pos = Suc (7 * (length ts - pos) + 6)"
    by (simp add: bound_def)
  have "run A ts Expression pos = descend A ts (Suc (7 * (length ts - pos) + 6)) Expression pos"
    unfolding run_def b ..
  also have "\<dots> =
     run A ts Term pos"
    apply (subst descend_Expression)
    apply ((unfold Let_def)?)
    apply ((intro eq_rules)?)
    apply (auto intro!: run_eq dest!: run_cursor simp: bound_def pos_increment_def)
    done
  finally show ?thesis .
qed

lemma run_Term:
  "run A ts Term pos =
     (case run A ts Factor pos of
             None \<Rightarrow> None
           | Some (Inl e) \<Rightarrow> Some (Inl e)
           | Some (Inr (left, pos1)) \<Rightarrow> run A ts (Term_loop left) pos1)"
proof -
  have b: "bound ts Term pos = Suc (7 * (length ts - pos) + 5)"
    by (simp add: bound_def)
  have "run A ts Term pos = descend A ts (Suc (7 * (length ts - pos) + 5)) Term pos"
    unfolding run_def b ..
  also have "\<dots> =
     (case run A ts Factor pos of
             None \<Rightarrow> None
           | Some (Inl e) \<Rightarrow> Some (Inl e)
           | Some (Inr (left, pos1)) \<Rightarrow> run A ts (Term_loop left) pos1)"
    apply (subst descend_Term)
    apply ((unfold Let_def)?)
    apply ((intro eq_rules)?)
    apply (auto intro!: run_eq dest!: run_cursor simp: bound_def pos_increment_def)
    done
  finally show ?thesis .
qed

lemma run_Term_loop:
  "run A ts (Term_loop left) pos =
     (if pos < length ts \<and> ttype (ts ! pos) \<in> {PLUS, MINUS} then
             (let op = ts ! pos in
              case run A ts Factor (pos_increment pos) of
                None \<Rightarrow> None
              | Some (Inl e) \<Rightarrow> Some (Inl e)
              | Some (Inr (right, pos1)) \<Rightarrow>
                  if ttype op = PLUS then
                    (case py_add A left right of
                       Inl e \<Rightarrow> Some (Inl e)
                     | Inr left1 \<Rightarrow> run A ts (Term_loop left1) pos1)
                  else if ttype op = MINUS then
                    (case py_sub A left right of
                       Inl e \<Rightarrow> Some (Inl e)
                     | Inr left1 \<Rightarrow> run A ts (Term_loop left1) pos1)
                  else run A ts (Term_loop left) pos1)
           else Some (Inr (left, pos)))"
proof -
  have b: "bound ts (Term_loop left) pos = Suc (7 * (length ts - pos) + 4)"
    by (simp add: bound_def)
  have "run A ts (Term_loop left) pos = descend A ts (Suc (7 * (length ts - pos) + 4)) (Term_loop left) pos"
    unfolding run_def b ..
  also have "\<dots> =
     (if pos < length ts \<and> ttype (ts ! pos) \<in> {PLUS, MINUS} then
             (let op = ts ! pos in
              case run A ts Factor (pos_increment pos) of
                None \<Rightarrow> None
              | Some (Inl e) \<Rightarrow> Some (Inl e)
              | Some (Inr (right, pos1)) \<Rightarrow>
                  if ttype op = PLUS then
                    (case py_add A left right of
                       Inl e \<Rightarrow> Some (Inl e)
                     | Inr left1 \<Rightarrow> run A ts (Term_loop left1) pos1)
                  else if ttype op = MINUS then
                    (case py_sub A left right of
                       Inl e \<Rightarrow> Some (Inl e)
                     | Inr left1 \<Rightarrow> run A ts (Term_loop left1) pos1)
                  else run A ts (Term_loop left) pos1)
           else Some (Inr (left, pos)))"
    apply (subst descend_Term_loop)
    apply ((unfold Let_def)?)
    apply ((intro eq_rules)?)
    apply (auto intro!: run_eq dest!: run_cursor simp: bound_def pos_increment_def)
    done
  finally show ?thesis .
qed

lemma run_Factor:
  "run A ts Factor pos =
     (case run A ts Power pos of
             None \<Rightarrow> None
           | Some (Inl e) \<Rightarrow> Some (Inl e)
           | Some (Inr (left, pos1)) \<Rightarrow> run A ts (Factor_loop left) pos1)"
proof -
  have b: "bound ts Factor pos = Suc (7 * (length ts - pos) + 3)"
    by (simp add: bound_def)
  have "run A ts Factor pos = descend A ts (Suc (7 * (length ts - pos) + 3)) Factor pos"
    unfolding run_def b ..
  also have "\<dots> =
     (case run A ts Power pos of
             None \<Rightarrow> None
           | Some (Inl e) \<Rightarrow> Some (Inl e)
           | Some (Inr (left, pos1)) \<Rightarrow> run A ts (Factor_loop left) pos1)"
    apply (subst descend_Factor)
    apply ((unfold Let_def)?)
    apply ((intro eq_rules)?)
    apply (auto intro!: run_eq dest!: run_cursor simp: bound_def pos_increment_def)
    done
  finally show ?thesis .
qed

lemma run_Factor_loop:
  "run A ts (Factor_loop left) pos =
     (if pos < length ts \<and> ttype (ts ! pos) \<in> {MULTIPLY, DIVIDE, MODULO} then
             (let op = ts ! pos in
              case run A ts Power (pos_increment pos) of
                None \<Rightarrow> None
              | Some (Inl e) \<Rightarrow> Some (Inl e)
              | Some (Inr (right, pos1)) \<Rightarrow>
                  if ttype op = MULTIPLY then
                    (case py_mul A left right of
                       Inl e \<Rightarrow> Some (Inl e)
                     | Inr left1 \<Rightarrow> run A ts (Factor_loop left1) pos1)
                  else if ttype op = DIVIDE then
                    (case py_truediv A left right of
                       Inl e \<Rightarrow> Some (Inl e)
                     | Inr left1 \<Rightarrow> run A ts (Factor_loop left1) pos1)
                  else if ttype op = MODULO then
                    (case py_mod A left right of
                       Inl e \<Rightarrow> Some (Inl e)
                     | Inr left1 \<Rightarrow> run A ts (Factor_loop left1) pos1)
                  else run A ts (Factor_loop left) pos1)
           else Some (Inr (left, pos)))"
proof -
  have b: "bound ts (Factor_loop left) pos = Suc (7 * (length ts - pos) + 2)"
    by (simp add: bound_def)
  have "run A ts (Factor_loop left) pos = descend A ts (Suc (7 * (length ts - pos) + 2)) (Factor_loop left) pos"
    unfolding run_def b ..
  also have "\<dots> =
     (if pos < length ts \<and> ttype (ts ! pos) \<in> {MULTIPLY, DIVIDE, MODULO} then
             (let op = ts ! pos in
              case run A ts Power (pos_increment pos) of
                None \<Rightarrow> None
              | Some (Inl e) \<Rightarrow> Some (Inl e)
              | Some (Inr (right, pos1)) \<Rightarrow>
                  if ttype op = MULTIPLY then
                    (case py_mul A left right of
                       Inl e \<Rightarrow> Some (Inl e)
                     | Inr left1 \<Rightarrow> run A ts (Factor_loop left1) pos1)
                  else if ttype op = DIVIDE then
                    (case py_truediv A left right of
                       Inl e \<Rightarrow> Some (Inl e)
                     | Inr left1 \<Rightarrow> run A ts (Factor_loop left1) pos1)
                  else if ttype op = MODULO then
                    (case py_mod A left right of
                       Inl e \<Rightarrow> Some (Inl e)
                     | Inr left1 \<Rightarrow> run A ts (Factor_loop left1) pos1)
                  else run A ts (Factor_loop left) pos1)
           else Some (Inr (left, pos)))"
    apply (subst descend_Factor_loop)
    apply ((unfold Let_def)?)
    apply ((intro eq_rules)?)
    apply (auto intro!: run_eq dest!: run_cursor simp: bound_def pos_increment_def)
    done
  finally show ?thesis .
qed

lemma run_Power:
  "run A ts Power pos =
     (case run A ts Primary pos of
             None \<Rightarrow> None
           | Some (Inl e) \<Rightarrow> Some (Inl e)
           | Some (Inr (left, pos1)) \<Rightarrow>
               if pos1 < length ts \<and> ttype (ts ! pos1) = POWER then
                 (case run A ts Power (pos_increment pos1) of
                    None \<Rightarrow> None
                  | Some (Inl e) \<Rightarrow> Some (Inl e)
                  | Some (Inr (right, pos2)) \<Rightarrow>
                      (case py_pow A left right of
                         Inl e \<Rightarrow> Some (Inl e)
                       | Inr v \<Rightarrow> Some (Inr (v, pos2))))
               else Some (Inr (left, pos1)))"
proof -
  have b: "bound ts Power pos = Suc (7 * (length ts - pos) + 1)"
    by (simp add: bound_def)
  have "run A ts Power pos = descend A ts (Suc (7 * (length ts - pos) + 1)) Power pos"
    unfolding run_def b ..
  also have "\<dots> =
     (case run A ts Primary pos of
             None \<Rightarrow> None
           | Some (Inl e) \<Rightarrow> Some (Inl e)
           | Some (Inr (left, pos1)) \<Rightarrow>
               if pos1 < length ts \<and> ttype (ts ! pos1) = POWER then
                 (case run A ts Power (pos_increment pos1) of
                    None \<Rightarrow> None
                  | Some (Inl e) \<Rightarrow> Some (Inl e)
                  | Some (Inr (right, pos2)) \<Rightarrow>
                      (case py_pow A left right of
                         Inl e \<Rightarrow> Some (Inl e)
                       | Inr v \<Rightarrow> Some (Inr (v, pos2))))
               else Some (Inr (left, pos1)))"
    apply (subst descend_Power)
    apply ((unfold Let_def)?)
    apply ((intro eq_rules)?)
    apply (auto intro!: run_eq dest!: run_cursor simp: bound_def pos_increment_def)
    done
  finally show ?thesis .
qed

lemma run_Primary:
  "run A ts Primary pos =
     (if pos < length ts then
             (let token = ts ! pos; pos1 = pos_increment pos in
              if ttype token = INTEGER then
                (case py_int A (tvalue token) of
                   Inl e \<Rightarrow> Some (Inl e)
                 | Inr v \<Rightarrow> Some (Inr (v, pos1)))
              else if ttype token = FLOAT then
                (case py_float A (tvalue token) of
                   Inl e \<Rightarrow> Some (Inl e)
                 | Inr v \<Rightarrow> Some (Inr (v, pos1)))
              else if ttype token = IDENTIFIER then
                (if tvalue token = ''sin'' then
                   (if pos1 < length ts \<and> ttype (ts ! pos1) = LEFT_PAREN then
                      (case run A ts Expression (pos_increment pos1) of
                         None \<Rightarrow> None
                       | Some (Inl e) \<Rightarrow> Some (Inl e)
                       | Some (Inr (arg, pos2)) \<Rightarrow>
                           if pos2 < length ts \<and> ttype (ts ! pos2) = RIGHT_PAREN then
                             (case math_sin A arg of
                                Inl e \<Rightarrow> Some (Inl e)
                              | Inr v \<Rightarrow> Some (Inr (v, pos_increment pos2)))
                           else Some (Inr (py_zero A, pos2)))
                    else Some (Inr (py_zero A, pos1)))
                 else if tvalue token = ''cos'' then
                   (if pos1 < length ts \<and> ttype (ts ! pos1) = LEFT_PAREN then
                      (case run A ts Expression (pos_increment pos1) of
                         None \<Rightarrow> None
                       | Some (Inl e) \<Rightarrow> Some (Inl e)
                       | Some (Inr (arg, pos2)) \<Rightarrow>
                           if pos2 < length ts \<and> ttype (ts ! pos2) = RIGHT_PAREN then
                             (case math_cos A arg of
                                Inl e \<Rightarrow> Some (Inl e)
                              | Inr v \<Rightarrow> Some (Inr (v, pos_increment pos2)))
                           else Some (Inr (py_zero A, pos2)))
                    else Some (Inr (py_zero A, pos1)))
                 else Some (Inr (py_zero A, pos1)))
              else if ttype token = LEFT_PAREN then
                (case run A ts Expression pos1 of
                   None \<Rightarrow> None
                 | Some (Inl e) \<Rightarrow> Some (Inl e)
                 | Some (Inr (result, pos2)) \<Rightarrow>
                     if pos2 < length ts \<and> ttype (ts ! pos2) = RIGHT_PAREN then
                       Some (Inr (result, pos_increment pos2))
                     else Some (Inr (py_zero A, pos2)))
              else Some (Inr (py_zero A, pos1)))
           else Some (Inl IndexError))"
proof -
  have b: "bound ts Primary pos = Suc (7 * (length ts - pos) + 0)"
    by (simp add: bound_def)
  have "run A ts Primary pos = descend A ts (Suc (7 * (length ts - pos) + 0)) Primary pos"
    unfolding run_def b ..
  also have "\<dots> =
     (if pos < length ts then
             (let token = ts ! pos; pos1 = pos_increment pos in
              if ttype token = INTEGER then
                (case py_int A (tvalue token) of
                   Inl e \<Rightarrow> Some (Inl e)
                 | Inr v \<Rightarrow> Some (Inr (v, pos1)))
              else if ttype token = FLOAT then
                (case py_float A (tvalue token) of
                   Inl e \<Rightarrow> Some (Inl e)
                 | Inr v \<Rightarrow> Some (Inr (v, pos1)))
              else if ttype token = IDENTIFIER then
                (if tvalue token = ''sin'' then
                   (if pos1 < length ts \<and> ttype (ts ! pos1) = LEFT_PAREN then
                      (case run A ts Expression (pos_increment pos1) of
                         None \<Rightarrow> None
                       | Some (Inl e) \<Rightarrow> Some (Inl e)
                       | Some (Inr (arg, pos2)) \<Rightarrow>
                           if pos2 < length ts \<and> ttype (ts ! pos2) = RIGHT_PAREN then
                             (case math_sin A arg of
                                Inl e \<Rightarrow> Some (Inl e)
                              | Inr v \<Rightarrow> Some (Inr (v, pos_increment pos2)))
                           else Some (Inr (py_zero A, pos2)))
                    else Some (Inr (py_zero A, pos1)))
                 else if tvalue token = ''cos'' then
                   (if pos1 < length ts \<and> ttype (ts ! pos1) = LEFT_PAREN then
                      (case run A ts Expression (pos_increment pos1) of
                         None \<Rightarrow> None
                       | Some (Inl e) \<Rightarrow> Some (Inl e)
                       | Some (Inr (arg, pos2)) \<Rightarrow>
                           if pos2 < length ts \<and> ttype (ts ! pos2) = RIGHT_PAREN then
                             (case math_cos A arg of
                                Inl e \<Rightarrow> Some (Inl e)
                              | Inr v \<Rightarrow> Some (Inr (v, pos_increment pos2)))
                           else Some (Inr (py_zero A, pos2)))
                    else Some (Inr (py_zero A, pos1)))
                 else Some (Inr (py_zero A, pos1)))
              else if ttype token = LEFT_PAREN then
                (case run A ts Expression pos1 of
                   None \<Rightarrow> None
                 | Some (Inl e) \<Rightarrow> Some (Inl e)
                 | Some (Inr (result, pos2)) \<Rightarrow>
                     if pos2 < length ts \<and> ttype (ts ! pos2) = RIGHT_PAREN then
                       Some (Inr (result, pos_increment pos2))
                     else Some (Inr (py_zero A, pos2)))
              else Some (Inr (py_zero A, pos1)))
           else Some (Inl IndexError))"
    apply (subst descend_Primary)
    apply ((unfold Let_def)?)
    apply ((intro eq_rules)?)
    apply (auto intro!: run_eq dest!: run_cursor simp: bound_def pos_increment_def)
    done
  finally show ?thesis .
qed

datatype primary_tree =
    Literal Token
  | Parenthesized Token term_tree Token
  | Call Token Token term_tree Token
and power_tree =
    Power_primary primary_tree
  | Power_op primary_tree Token power_tree
and factor_tree =
    Factor_power power_tree
  | Factor_op factor_tree Token power_tree
and term_tree =
    Term_factor factor_tree
  | Term_op term_tree Token factor_tree

primrec wf_primary :: "primary_tree \<Rightarrow> bool"
  and wf_power :: "power_tree \<Rightarrow> bool"
  and wf_factor :: "factor_tree \<Rightarrow> bool"
  and wf_term :: "term_tree \<Rightarrow> bool" where
  "wf_primary (Literal t) = (ttype t = INTEGER \<or> ttype t = FLOAT)"
| "wf_primary (Parenthesized l e r) =
     (ttype l = LEFT_PAREN \<and> wf_term e \<and> ttype r = RIGHT_PAREN)"
| "wf_primary (Call f l e r) =
     (ttype f = IDENTIFIER \<and> (tvalue f = ''sin'' \<or> tvalue f = ''cos'') \<and>
      ttype l = LEFT_PAREN \<and> wf_term e \<and> ttype r = RIGHT_PAREN)"
| "wf_power (Power_primary p) = wf_primary p"
| "wf_power (Power_op p op w) = (wf_primary p \<and> ttype op = POWER \<and> wf_power w)"
| "wf_factor (Factor_power w) = wf_power w"
| "wf_factor (Factor_op f op w) =
     (wf_factor f \<and> (ttype op = MULTIPLY \<or> ttype op = DIVIDE \<or> ttype op = MODULO) \<and> wf_power w)"
| "wf_term (Term_factor f) = wf_factor f"
| "wf_term (Term_op t op f) = (wf_term t \<and> (ttype op = PLUS \<or> ttype op = MINUS) \<and> wf_factor f)"

primrec tokens_primary :: "primary_tree \<Rightarrow> Token list"
  and tokens_power :: "power_tree \<Rightarrow> Token list"
  and tokens_factor :: "factor_tree \<Rightarrow> Token list"
  and tokens_term :: "term_tree \<Rightarrow> Token list" where
  "tokens_primary (Literal t) = [t]"
| "tokens_primary (Parenthesized l e r) = l # tokens_term e @ [r]"
| "tokens_primary (Call f l e r) = f # l # tokens_term e @ [r]"
| "tokens_power (Power_primary p) = tokens_primary p"
| "tokens_power (Power_op p op w) = tokens_primary p @ op # tokens_power w"
| "tokens_factor (Factor_power w) = tokens_power w"
| "tokens_factor (Factor_op f op w) = tokens_factor f @ op # tokens_power w"
| "tokens_term (Term_factor f) = tokens_factor f"
| "tokens_term (Term_op t op f) = tokens_term t @ op # tokens_factor f"

definition binary :: "('v \<Rightarrow> 'v \<Rightarrow> error + 'v) \<Rightarrow> error + 'v \<Rightarrow> error + 'v \<Rightarrow> error + 'v" where
  "binary f x y =
     (case x of Inl e \<Rightarrow> Inl e | Inr a \<Rightarrow> (case y of Inl e \<Rightarrow> Inl e | Inr b \<Rightarrow> f a b))"

primrec value_primary :: "'v host \<Rightarrow> primary_tree \<Rightarrow> error + 'v"
  and value_power :: "'v host \<Rightarrow> power_tree \<Rightarrow> error + 'v"
  and value_factor :: "'v host \<Rightarrow> factor_tree \<Rightarrow> error + 'v"
  and value_term :: "'v host \<Rightarrow> term_tree \<Rightarrow> error + 'v" where
  "value_primary A (Literal t) =
     (if ttype t = INTEGER then py_int A (tvalue t) else py_float A (tvalue t))"
| "value_primary A (Parenthesized l e r) = value_term A e"
| "value_primary A (Call f l e r) =
     (case value_term A e of
        Inl x \<Rightarrow> Inl x
      | Inr v \<Rightarrow> if tvalue f = ''sin'' then math_sin A v else math_cos A v)"
| "value_power A (Power_primary p) = value_primary A p"
| "value_power A (Power_op p op w) = binary (py_pow A) (value_primary A p) (value_power A w)"
| "value_factor A (Factor_power w) = value_power A w"
| "value_factor A (Factor_op f op w) =
     binary (if ttype op = MULTIPLY then py_mul A else if ttype op = DIVIDE then py_truediv A else py_mod A)
       (value_factor A f) (value_power A w)"
| "value_term A (Term_factor f) = value_factor A f"
| "value_term A (Term_op t op f) =
     binary (if ttype op = PLUS then py_add A else py_sub A) (value_term A t) (value_factor A f)"

definition starts_with :: "TokenType set \<Rightarrow> Token list \<Rightarrow> bool" where
  "starts_with S rest = (case rest of [] \<Rightarrow> False | t # _ \<Rightarrow> ttype t \<in> S)"

definition at_cursor :: "error + 'v \<Rightarrow> nat \<Rightarrow> error + 'v \<times> nat" where
  "at_cursor x p = (case x of Inl e \<Rightarrow> Inl e | Inr v \<Rightarrow> Inr (v, p))"

definition and_then :: "error + 'v \<Rightarrow> ('v \<Rightarrow> (error + 'v \<times> nat) option) \<Rightarrow> (error + 'v \<times> nat) option" where
  "and_then x k = (case x of Inl e \<Rightarrow> Some (Inl e) | Inr v \<Rightarrow> k v)"

lemma Some_at_cursor:
  "Some (at_cursor x p) = (case x of Inl e \<Rightarrow> Some (Inl e) | Inr v \<Rightarrow> Some (Inr (v, p)))"
  by (simp add: at_cursor_def split: sum.splits)

lemmas case_congs = if_cong option.case_cong sum.case_cong prod.case_cong

lemma primary_literal:
  "pos < length ts \<Longrightarrow> ttype (ts ! pos) = INTEGER \<or> ttype (ts ! pos) = FLOAT \<Longrightarrow>
   run A ts Primary pos =
     Some (at_cursor (if ttype (ts ! pos) = INTEGER then py_int A (tvalue (ts ! pos))
                      else py_float A (tvalue (ts ! pos))) (Suc pos))"
  apply (subst run_Primary)
  apply (erule disjE)
   apply (simp_all add: Let_def pos_increment_def Some_at_cursor cong: case_congs)
  done

lemma primary_paren:
  "pos < length ts \<Longrightarrow> ttype (ts ! pos) = LEFT_PAREN \<Longrightarrow>
   run A ts Primary pos =
     (case run A ts Expression (Suc pos) of
        None \<Rightarrow> None
      | Some (Inl e) \<Rightarrow> Some (Inl e)
      | Some (Inr (v, q)) \<Rightarrow>
          if q < length ts \<and> ttype (ts ! q) = RIGHT_PAREN then Some (Inr (v, Suc q))
          else Some (Inr (py_zero A, q)))"
  by (subst run_Primary) (simp add: Let_def pos_increment_def cong: case_congs)

lemma primary_call:
  "Suc pos < length ts \<Longrightarrow> ttype (ts ! pos) = IDENTIFIER \<Longrightarrow>
   tvalue (ts ! pos) = ''sin'' \<or> tvalue (ts ! pos) = ''cos'' \<Longrightarrow>
   ttype (ts ! Suc pos) = LEFT_PAREN \<Longrightarrow>
   run A ts Primary pos =
     (case run A ts Expression (Suc (Suc pos)) of
        None \<Rightarrow> None
      | Some (Inl e) \<Rightarrow> Some (Inl e)
      | Some (Inr (v, q)) \<Rightarrow>
          if q < length ts \<and> ttype (ts ! q) = RIGHT_PAREN then
            Some (at_cursor (if tvalue (ts ! pos) = ''sin'' then math_sin A v else math_cos A v) (Suc q))
          else Some (Inr (py_zero A, q)))"
  apply (subst run_Primary)
  apply (erule disjE)
   apply (simp_all add: Let_def pos_increment_def Some_at_cursor cong: case_congs)
  done

lemma term_loop_stop:
  "\<not> (pos < length ts \<and> ttype (ts ! pos) \<in> {PLUS, MINUS}) \<Longrightarrow>
   run A ts (Term_loop v) pos = Some (Inr (v, pos))"
  by (subst run_Term_loop) (simp only: if_False)

lemma factor_loop_stop:
  "\<not> (pos < length ts \<and> ttype (ts ! pos) \<in> {MULTIPLY, DIVIDE, MODULO}) \<Longrightarrow>
   run A ts (Factor_loop v) pos = Some (Inr (v, pos))"
  by (subst run_Factor_loop) (simp only: if_False)

lemma term_loop_step:
  "pos < length ts \<Longrightarrow> ttype (ts ! pos) = PLUS \<or> ttype (ts ! pos) = MINUS \<Longrightarrow>
   run A ts (Term_loop left) pos =
     (case run A ts Factor (Suc pos) of
        None \<Rightarrow> None
      | Some (Inl e) \<Rightarrow> Some (Inl e)
      | Some (Inr (right, q)) \<Rightarrow>
          and_then ((if ttype (ts ! pos) = PLUS then py_add A else py_sub A) left right)
            (\<lambda>v. run A ts (Term_loop v) q))"
  apply (subst run_Term_loop)
  apply (erule disjE)
   apply (simp_all add: Let_def pos_increment_def and_then_def cong: case_congs)
  done

lemma factor_loop_step:
  "pos < length ts \<Longrightarrow>
   ttype (ts ! pos) = MULTIPLY \<or> ttype (ts ! pos) = DIVIDE \<or> ttype (ts ! pos) = MODULO \<Longrightarrow>
   run A ts (Factor_loop left) pos =
     (case run A ts Power (Suc pos) of
        None \<Rightarrow> None
      | Some (Inl e) \<Rightarrow> Some (Inl e)
      | Some (Inr (right, q)) \<Rightarrow>
          and_then ((if ttype (ts ! pos) = MULTIPLY then py_mul A
                     else if ttype (ts ! pos) = DIVIDE then py_truediv A else py_mod A) left right)
            (\<lambda>v. run A ts (Factor_loop v) q))"
  apply (subst run_Factor_loop)
  apply (elim disjE)
    apply (simp_all add: Let_def pos_increment_def and_then_def cong: case_congs)
  done

lemma power_step:
  "run A ts Power pos =
     (case run A ts Primary pos of
        None \<Rightarrow> None
      | Some (Inl e) \<Rightarrow> Some (Inl e)
      | Some (Inr (left, q)) \<Rightarrow>
          if q < length ts \<and> ttype (ts ! q) = POWER then
            (case run A ts Power (Suc q) of
               None \<Rightarrow> None
             | Some (Inl e) \<Rightarrow> Some (Inl e)
             | Some (Inr (right, q2)) \<Rightarrow> Some (at_cursor (py_pow A left right) q2))
          else Some (Inr (left, q)))"
  by (subst run_Power) (simp add: Let_def pos_increment_def Some_at_cursor cong: case_congs)

lemma next_token:
  "(length pre + length xs < length (pre @ xs @ rest) \<and>
    ttype ((pre @ xs @ rest) ! (length pre + length xs)) \<in> S) = starts_with S rest"
  by (cases rest) (simp_all add: starts_with_def nth_append)

lemma term_close:
  "run A ts Term p = and_then x (\<lambda>v. run A ts (Term_loop v) q) \<Longrightarrow>
   \<not> (q < length ts \<and> ttype (ts ! q) \<in> {PLUS, MINUS}) \<Longrightarrow>
   run A ts Term p = Some (at_cursor x q)"
  by (simp add: and_then_def at_cursor_def term_loop_stop split: sum.splits)

lemma factor_close:
  "run A ts Factor p = and_then x (\<lambda>v. run A ts (Factor_loop v) q) \<Longrightarrow>
   \<not> (q < length ts \<and> ttype (ts ! q) \<in> {MULTIPLY, DIVIDE, MODULO}) \<Longrightarrow>
   run A ts Factor p = Some (at_cursor x q)"
  by (simp add: and_then_def at_cursor_def factor_loop_stop split: sum.splits)

lemma starts_with_mono: "\<not> starts_with S rest \<Longrightarrow> T \<subseteq> S \<Longrightarrow> \<not> starts_with T rest"
  by (auto simp: starts_with_def split: list.splits)

lemma primary_parenthesized:
  assumes "pos < length ts" "ttype (ts ! pos) = LEFT_PAREN"
    and "run A ts Term (Suc pos) = Some (at_cursor x q)"
    and "q < length ts" "ttype (ts ! q) = RIGHT_PAREN"
  shows "run A ts Primary pos = Some (at_cursor x (Suc q))"
  using assms by (cases x) (simp_all add: primary_paren run_Expression at_cursor_def)

lemma primary_called:
  assumes "Suc pos < length ts" "ttype (ts ! pos) = IDENTIFIER"
    and "tvalue (ts ! pos) = ''sin'' \<or> tvalue (ts ! pos) = ''cos''"
    and "ttype (ts ! Suc pos) = LEFT_PAREN"
    and "run A ts Term (Suc (Suc pos)) = Some (at_cursor x q)"
    and "q < length ts" "ttype (ts ! q) = RIGHT_PAREN"
  shows "run A ts Primary pos =
    Some (at_cursor (case x of Inl e \<Rightarrow> Inl e
                     | Inr v \<Rightarrow> if tvalue (ts ! pos) = ''sin'' then math_sin A v else math_cos A v)
            (Suc q))"
  using assms by (cases x) (simp_all add: primary_call run_Expression at_cursor_def)

lemma power_base:
  assumes "run A ts Primary pos = Some (at_cursor x q)"
    and "\<not> (q < length ts \<and> ttype (ts ! q) = POWER)"
  shows "run A ts Power pos = Some (at_cursor x q)"
  using assms by (cases x) (auto simp: power_step[of A ts pos] at_cursor_def)

lemma power_raise:
  assumes "run A ts Primary pos = Some (at_cursor x q)"
    and "q < length ts" "ttype (ts ! q) = POWER"
    and "run A ts Power (Suc q) = Some (at_cursor y q2)"
  shows "run A ts Power pos = Some (at_cursor (binary (py_pow A) x y) q2)"
  using assms by (cases x; cases y) (simp_all add: power_step[of A ts pos] at_cursor_def binary_def)

lemma factor_start:
  assumes "run A ts Power pos = Some (at_cursor x q)"
  shows "run A ts Factor pos = and_then x (\<lambda>v. run A ts (Factor_loop v) q)"
  using assms by (cases x) (simp_all add: run_Factor[of A ts pos] at_cursor_def and_then_def)

lemma factor_more:
  assumes "run A ts Factor pos = and_then x (\<lambda>v. run A ts (Factor_loop v) q)"
    and "q < length ts"
    and "ttype (ts ! q) = MULTIPLY \<or> ttype (ts ! q) = DIVIDE \<or> ttype (ts ! q) = MODULO"
    and "run A ts Power (Suc q) = Some (at_cursor y q2)"
  shows "run A ts Factor pos =
    and_then (binary (if ttype (ts ! q) = MULTIPLY then py_mul A
                      else if ttype (ts ! q) = DIVIDE then py_truediv A else py_mod A) x y)
      (\<lambda>v. run A ts (Factor_loop v) q2)"
  using assms
  by (cases x; cases y) (simp_all add: factor_loop_step[of q ts A] at_cursor_def and_then_def binary_def)

lemma term_start:
  assumes "run A ts Factor pos = Some (at_cursor x q)"
  shows "run A ts Term pos = and_then x (\<lambda>v. run A ts (Term_loop v) q)"
  using assms by (cases x) (simp_all add: run_Term[of A ts pos] at_cursor_def and_then_def)

lemma term_more:
  assumes "run A ts Term pos = and_then x (\<lambda>v. run A ts (Term_loop v) q)"
    and "q < length ts"
    and "ttype (ts ! q) = PLUS \<or> ttype (ts ! q) = MINUS"
    and "run A ts Factor (Suc q) = Some (at_cursor y q2)"
  shows "run A ts Term pos =
    and_then (binary (if ttype (ts ! q) = PLUS then py_add A else py_sub A) x y)
      (\<lambda>v. run A ts (Term_loop v) q2)"
  using assms
  by (cases x; cases y) (simp_all add: term_loop_step[of q ts A] at_cursor_def and_then_def binary_def)

lemma parse_tree:
  fixes A :: "'v host"
  shows "wf_primary p \<Longrightarrow>
     run A (pre @ tokens_primary p @ rest) Primary (length pre) =
       Some (at_cursor (value_primary A p) (length pre + length (tokens_primary p)))"
  and "wf_power w \<Longrightarrow> \<not> starts_with {POWER} rest \<Longrightarrow>
     run A (pre @ tokens_power w @ rest) Power (length pre) =
       Some (at_cursor (value_power A w) (length pre + length (tokens_power w)))"
  and "wf_factor f \<Longrightarrow> \<not> starts_with {POWER} rest \<Longrightarrow>
     run A (pre @ tokens_factor f @ rest) Factor (length pre) =
       and_then (value_factor A f)
         (\<lambda>v. run A (pre @ tokens_factor f @ rest) (Factor_loop v) (length pre + length (tokens_factor f)))"
  and "wf_term t \<Longrightarrow> \<not> starts_with {POWER, MULTIPLY, DIVIDE, MODULO} rest \<Longrightarrow>
     run A (pre @ tokens_term t @ rest) Term (length pre) =
       and_then (value_term A t)
         (\<lambda>v. run A (pre @ tokens_term t @ rest) (Term_loop v) (length pre + length (tokens_term t)))"
proof (induction p and w and f and t arbitrary: pre rest and pre rest and pre rest and pre rest)
  case (Literal tok)
  then show ?case
    by (subst primary_literal) (auto simp: nth_append)
next
  case (Parenthesized l e r)
  define ts where "ts = pre @ tokens_primary (Parenthesized l e r) @ rest"
  define q where "q = length (pre @ [l]) + length (tokens_term e)"
  have ts1: "ts = (pre @ [l]) @ tokens_term e @ (r # rest)"
    by (simp add: ts_def)
  from Parenthesized.prems have wf: "ttype l = LEFT_PAREN" "wf_term e" "ttype r = RIGHT_PAREN"
    by simp_all
  have nostart: "\<not> starts_with {POWER, MULTIPLY, DIVIDE, MODULO} (r # rest)"
    using wf by (simp add: starts_with_def)
  have L: "run A ts Term (length (pre @ [l])) =
      and_then (value_term A e) (\<lambda>v. run A ts (Term_loop v) q)"
    unfolding ts1 q_def by (rule Parenthesized.IH[OF wf(2) nostart])
  have stop: "\<not> (q < length ts \<and> ttype (ts ! q) \<in> {PLUS, MINUS})"
    unfolding ts1 q_def next_token using wf by (simp add: starts_with_def)
  have T: "run A ts Term (Suc (length pre)) = Some (at_cursor (value_term A e) q)"
    using term_close[OF L stop] by simp
  have q: "q < length ts" "ttype (ts ! q) = RIGHT_PAREN"
    using wf by (simp_all add: ts1 q_def nth_append)
  have p: "length pre < length ts" "ttype (ts ! length pre) = LEFT_PAREN"
    using wf by (simp_all add: ts_def)
  have "run A ts Primary (length pre) = Some (at_cursor (value_term A e) (Suc q))"
    by (rule primary_parenthesized[OF p T q])
  then show ?case
    unfolding ts_def[symmetric] by (simp add: q_def add.assoc)
next
  case (Call f l e r)
  define ts where "ts = pre @ tokens_primary (Call f l e r) @ rest"
  define q where "q = length (pre @ [f, l]) + length (tokens_term e)"
  have ts1: "ts = (pre @ [f, l]) @ tokens_term e @ (r # rest)"
    by (simp add: ts_def)
  from Call.prems have wf: "ttype f = IDENTIFIER" "tvalue f = ''sin'' \<or> tvalue f = ''cos''"
      "ttype l = LEFT_PAREN" "wf_term e" "ttype r = RIGHT_PAREN"
    by simp_all
  have nostart: "\<not> starts_with {POWER, MULTIPLY, DIVIDE, MODULO} (r # rest)"
    using wf by (simp add: starts_with_def)
  have L: "run A ts Term (length (pre @ [f, l])) =
      and_then (value_term A e) (\<lambda>v. run A ts (Term_loop v) q)"
    unfolding ts1 q_def by (rule Call.IH[OF wf(4) nostart])
  have stop: "\<not> (q < length ts \<and> ttype (ts ! q) \<in> {PLUS, MINUS})"
    unfolding ts1 q_def next_token using wf by (simp add: starts_with_def)
  have T: "run A ts Term (Suc (Suc (length pre))) = Some (at_cursor (value_term A e) q)"
    using term_close[OF L stop] by simp
  have q: "q < length ts" "ttype (ts ! q) = RIGHT_PAREN"
    using wf by (simp_all add: ts1 q_def nth_append)
  have f: "ts ! length pre = f"
    by (simp add: ts_def)
  have p: "Suc (length pre) < length ts" "ttype (ts ! length pre) = IDENTIFIER"
      "tvalue (ts ! length pre) = ''sin'' \<or> tvalue (ts ! length pre) = ''cos''"
      "ttype (ts ! Suc (length pre)) = LEFT_PAREN"
    using wf by (simp_all add: f) (simp_all add: ts_def nth_append)
  have "run A ts Primary (length pre) = Some (at_cursor (value_primary A (Call f l e r)) (Suc q))"
    using primary_called[OF p T q] unfolding f by simp
  then show ?case
    unfolding ts_def[symmetric] by (simp add: q_def add.assoc)
next
  case (Power_primary p)
  define ts where "ts = pre @ tokens_power (Power_primary p) @ rest"
  define q where "q = length pre + length (tokens_primary p)"
  have ts1: "ts = pre @ tokens_primary p @ rest"
    by (simp add: ts_def)
  have P: "run A ts Primary (length pre) = Some (at_cursor (value_primary A p) q)"
    unfolding ts1 q_def using Power_primary.prems by (intro Power_primary.IH) simp
  have "\<not> (q < length ts \<and> ttype (ts ! q) \<in> {POWER})"
    unfolding ts1 q_def next_token using Power_primary.prems by simp
  then have stop: "\<not> (q < length ts \<and> ttype (ts ! q) = POWER)"
    by simp
  have "run A ts Power (length pre) = Some (at_cursor (value_primary A p) q)"
    by (rule power_base[OF P stop])
  then show ?case
    unfolding ts_def[symmetric] by (simp add: q_def add.assoc)
next
  case (Power_op p op w)
  define ts where "ts = pre @ tokens_power (Power_op p op w) @ rest"
  define q where "q = length pre + length (tokens_primary p)"
  define q2 where "q2 = length (pre @ tokens_primary p @ [op]) + length (tokens_power w)"
  have ts1: "ts = pre @ tokens_primary p @ (op # tokens_power w @ rest)"
    by (simp add: ts_def)
  have ts2: "ts = (pre @ tokens_primary p @ [op]) @ tokens_power w @ rest"
    by (simp add: ts_def)
  from Power_op.prems have wf: "wf_primary p" "ttype op = POWER" "wf_power w"
    and nostart: "\<not> starts_with {POWER} rest"
    by simp_all
  have P: "run A ts Primary (length pre) = Some (at_cursor (value_primary A p) q)"
    unfolding ts1 q_def by (rule Power_op.IH(1)[OF wf(1)])
  have go: "q < length ts" "ttype (ts ! q) = POWER"
    using wf by (simp_all add: ts1 q_def nth_append)
  have W: "run A ts Power (Suc q) = Some (at_cursor (value_power A w) q2)"
    using Power_op.IH(2)[OF wf(3) nostart, of "pre @ tokens_primary p @ [op]"]
    unfolding ts2[symmetric] q2_def by (simp add: q_def)
  have "run A ts Power (length pre) = Some (at_cursor (value_power A (Power_op p op w)) q2)"
    using power_raise[OF P go W] by simp
  then show ?case
    unfolding ts_def[symmetric] by (simp add: q2_def add.assoc)
next
  case (Factor_power w)
  have W: "run A (pre @ tokens_power w @ rest) Power (length pre) =
      Some (at_cursor (value_power A w) (length pre + length (tokens_power w)))"
    using Factor_power.prems by (intro Factor_power.IH) simp_all
  show ?case
    using factor_start[OF W] by simp
next
  case (Factor_op f op w)
  define ts where "ts = pre @ tokens_factor (Factor_op f op w) @ rest"
  define q where "q = length pre + length (tokens_factor f)"
  define q2 where "q2 = length (pre @ tokens_factor f @ [op]) + length (tokens_power w)"
  have ts1: "ts = pre @ tokens_factor f @ (op # tokens_power w @ rest)"
    by (simp add: ts_def)
  have ts2: "ts = (pre @ tokens_factor f @ [op]) @ tokens_power w @ rest"
    by (simp add: ts_def)
  from Factor_op.prems have wf: "wf_factor f"
      "ttype op = MULTIPLY \<or> ttype op = DIVIDE \<or> ttype op = MODULO" "wf_power w"
    and nostart: "\<not> starts_with {POWER} rest"
    by simp_all
  have nostart1: "\<not> starts_with {POWER} (op # tokens_power w @ rest)"
    using wf(2) by (auto simp: starts_with_def)
  have L: "run A ts Factor (length pre) =
      and_then (value_factor A f) (\<lambda>v. run A ts (Factor_loop v) q)"
    unfolding ts1 q_def by (rule Factor_op.IH(1)[OF wf(1) nostart1])
  have op: "ts ! q = op"
    by (simp add: ts1 q_def nth_append)
  have go: "q < length ts"
      "ttype (ts ! q) = MULTIPLY \<or> ttype (ts ! q) = DIVIDE \<or> ttype (ts ! q) = MODULO"
    using wf(2) by (simp_all add: op) (simp add: ts1 q_def)
  have W: "run A ts Power (Suc q) = Some (at_cursor (value_power A w) q2)"
    using Factor_op.IH(2)[OF wf(3) nostart, of "pre @ tokens_factor f @ [op]"]
    unfolding ts2[symmetric] q2_def by (simp add: q_def)
  have "run A ts Factor (length pre) =
      and_then (value_factor A (Factor_op f op w)) (\<lambda>v. run A ts (Factor_loop v) q2)"
    using factor_more[OF L go W] unfolding op by simp
  then show ?case
    unfolding ts_def[symmetric] by (simp add: q2_def add.assoc)
next
  case (Term_factor f)
  define ts where "ts = pre @ tokens_term (Term_factor f) @ rest"
  define q where "q = length pre + length (tokens_factor f)"
  have ts1: "ts = pre @ tokens_factor f @ rest"
    by (simp add: ts_def)
  from Term_factor.prems have wf: "wf_factor f"
    and nostart: "\<not> starts_with {POWER, MULTIPLY, DIVIDE, MODULO} rest"
    by simp_all
  have L: "run A ts Factor (length pre) =
      and_then (value_factor A f) (\<lambda>v. run A ts (Factor_loop v) q)"
    unfolding ts1 q_def
    by (rule Term_factor.IH[OF wf starts_with_mono[OF nostart]]) simp
  have stop: "\<not> (q < length ts \<and> ttype (ts ! q) \<in> {MULTIPLY, DIVIDE, MODULO})"
    unfolding ts1 q_def next_token by (rule starts_with_mono[OF nostart]) simp
  have F: "run A ts Factor (length pre) = Some (at_cursor (value_factor A f) q)"
    by (rule factor_close[OF L stop])
  have "run A ts Term (length pre) =
      and_then (value_term A (Term_factor f)) (\<lambda>v. run A ts (Term_loop v) q)"
    using term_start[OF F] by simp
  then show ?case
    unfolding ts_def[symmetric] by (simp add: q_def add.assoc)
next
  case (Term_op t op f)
  define ts where "ts = pre @ tokens_term (Term_op t op f) @ rest"
  define q where "q = length pre + length (tokens_term t)"
  define q2 where "q2 = length (pre @ tokens_term t @ [op]) + length (tokens_factor f)"
  have ts1: "ts = pre @ tokens_term t @ (op # tokens_factor f @ rest)"
    by (simp add: ts_def)
  have ts2: "ts = (pre @ tokens_term t @ [op]) @ tokens_factor f @ rest"
    by (simp add: ts_def)
  from Term_op.prems have wf: "wf_term t" "ttype op = PLUS \<or> ttype op = MINUS" "wf_factor f"
    and nostart: "\<not> starts_with {POWER, MULTIPLY, DIVIDE, MODULO} rest"
    by simp_all
  have nostart1: "\<not> starts_with {POWER, MULTIPLY, DIVIDE, MODULO} (op # tokens_factor f @ rest)"
    using wf(2) by (auto simp: starts_with_def)
  have L: "run A ts Term (length pre) =
      and_then (value_term A t) (\<lambda>v. run A ts (Term_loop v) q)"
    unfolding ts1 q_def by (rule Term_op.IH(1)[OF wf(1) nostart1])
  have op: "ts ! q = op"
    by (simp add: ts1 q_def nth_append)
  have go: "q < length ts" "ttype (ts ! q) = PLUS \<or> ttype (ts ! q) = MINUS"
    using wf(2) by (simp_all add: op) (simp add: ts1 q_def)
  have FL: "run A ts Factor (Suc q) =
      and_then (value_factor A f) (\<lambda>v. run A ts (Factor_loop v) q2)"
    using Term_op.IH(2)[OF wf(3) starts_with_mono[OF nostart], of "pre @ tokens_term t @ [op]"]
    unfolding ts2[symmetric] q2_def by (simp add: q_def)
  have stop: "\<not> (q2 < length ts \<and> ttype (ts ! q2) \<in> {MULTIPLY, DIVIDE, MODULO})"
    unfolding ts2 q2_def next_token by (rule starts_with_mono[OF nostart]) simp
  have F: "run A ts Factor (Suc q) = Some (at_cursor (value_factor A f) q2)"
    by (rule factor_close[OF FL stop])
  have "run A ts Term (length pre) =
      and_then (value_term A (Term_op t op f)) (\<lambda>v. run A ts (Term_loop v) q2)"
    using term_more[OF L go F] unfolding op by simp
  then show ?case
    unfolding ts_def[symmetric] by (simp add: q2_def add.assoc)
qed

lemma calculate_run:
  "calculate A ts =
     (case run A ts Expression 0 of
        None \<Rightarrow> None
      | Some (Inl e) \<Rightarrow> Some (Inl e)
      | Some (Inr (result, pos)) \<Rightarrow> Some (Inr result))"
proof -
  have "descend A ts (fuel ts) Expression 0 = run A ts Expression 0"
    by (rule run_eq) (simp add: bound_def fuel_def)
  then show ?thesis
    by (simp add: calculate_def expression_def)
qed

lemma expression_run:
  "expression A ts (fuel ts) pos = run A ts Expression pos"
  unfolding expression_def by (rule run_eq) (simp add: bound_def fuel_def)

lemma expression_tree:
  assumes "wf_term t"
    and "\<not> starts_with {PLUS, MINUS, MULTIPLY, DIVIDE, MODULO, POWER} rest"
  shows "run A (pre @ tokens_term t @ rest) Expression (length pre) =
    Some (at_cursor (value_term A t) (length pre + length (tokens_term t)))"
proof -
  have L: "run A (pre @ tokens_term t @ rest) Term (length pre) =
      and_then (value_term A t)
        (\<lambda>v. run A (pre @ tokens_term t @ rest) (Term_loop v) (length pre + length (tokens_term t)))"
    by (rule parse_tree(4)[OF assms(1) starts_with_mono[OF assms(2)]]) simp
  have stop: "\<not> (length pre + length (tokens_term t) < length (pre @ tokens_term t @ rest) \<and>
      ttype ((pre @ tokens_term t @ rest) ! (length pre + length (tokens_term t))) \<in> {PLUS, MINUS})"
    unfolding next_token by (rule starts_with_mono[OF assms(2)]) simp
  show ?thesis
    unfolding run_Expression by (rule term_close[OF L stop])
qed

lemma calculate_tree:
  assumes "wf_term t"
    and "\<not> starts_with {PLUS, MINUS, MULTIPLY, DIVIDE, MODULO, POWER} rest"
  shows "calculate A (tokens_term t @ rest) = Some (value_term A t)"
  using expression_tree[OF assms, of A "[]"]
  by (cases "value_term A t") (simp_all add: calculate_run at_cursor_def)

text \<open>Exceptions pass through every function.\<close>

lemma primary_end: "length ts \<le> pos \<Longrightarrow> run A ts Primary pos = Some (Inl IndexError)"
  by (subst run_Primary) simp

lemma power_raises:
  "run A ts Primary pos = Some (Inl e) \<Longrightarrow> run A ts Power pos = Some (Inl e)"
  by (simp add: power_step[of A ts pos])

lemma factor_raises:
  "run A ts Power pos = Some (Inl e) \<Longrightarrow> run A ts Factor pos = Some (Inl e)"
  by (simp add: run_Factor[of A ts pos])

lemma term_raises:
  "run A ts Factor pos = Some (Inl e) \<Longrightarrow> run A ts Term pos = Some (Inl e)"
  by (simp add: run_Term[of A ts pos])

lemma expression_raises:
  "run A ts Term pos = Some (Inl e) \<Longrightarrow> run A ts Expression pos = Some (Inl e)"
  by (simp add: run_Expression)

lemma calculate_raises:
  "run A ts Expression 0 = Some (Inl e) \<Longrightarrow> calculate A ts = Some (Inl e)"
  by (simp add: calculate_run)

lemma parenthesis_raises:
  "pos < length ts \<Longrightarrow> ttype (ts ! pos) = LEFT_PAREN \<Longrightarrow>
   run A ts Expression (Suc pos) = Some (Inl e) \<Longrightarrow> run A ts Primary pos = Some (Inl e)"
  by (simp add: primary_paren)

lemma call_raises:
  "Suc pos < length ts \<Longrightarrow> ttype (ts ! pos) = IDENTIFIER \<Longrightarrow>
   tvalue (ts ! pos) = ''sin'' \<or> tvalue (ts ! pos) = ''cos'' \<Longrightarrow>
   ttype (ts ! Suc pos) = LEFT_PAREN \<Longrightarrow>
   run A ts Expression (Suc (Suc pos)) = Some (Inl e) \<Longrightarrow> run A ts Primary pos = Some (Inl e)"
  by (simp add: primary_call)

lemma term_loop_raises:
  "pos < length ts \<Longrightarrow> ttype (ts ! pos) = PLUS \<or> ttype (ts ! pos) = MINUS \<Longrightarrow>
   run A ts Factor (Suc pos) = Some (Inl e) \<Longrightarrow> run A ts (Term_loop left) pos = Some (Inl e)"
  by (simp add: term_loop_step)

lemma factor_loop_raises:
  "pos < length ts \<Longrightarrow>
   ttype (ts ! pos) = MULTIPLY \<or> ttype (ts ! pos) = DIVIDE \<or> ttype (ts ! pos) = MODULO \<Longrightarrow>
   run A ts Power (Suc pos) = Some (Inl e) \<Longrightarrow> run A ts (Factor_loop left) pos = Some (Inl e)"
  by (simp add: factor_loop_step)

lemma power_right_raises:
  "run A ts Primary pos = Some (Inr (left, q)) \<Longrightarrow> q < length ts \<Longrightarrow> ttype (ts ! q) = POWER \<Longrightarrow>
   run A ts Power (Suc q) = Some (Inl e) \<Longrightarrow> run A ts Power pos = Some (Inl e)"
  by (simp add: power_step[of A ts pos])

lemma rule_end:
  "length ts \<le> pos \<Longrightarrow> \<not> is_loop r \<Longrightarrow> run A ts r pos = Some (Inl IndexError)"
  by (cases r)
     (simp_all add: primary_end power_raises factor_raises term_raises expression_raises)

lemma primary_raises:
  "run A ts Primary pos = Some (Inl e) \<Longrightarrow> run A ts Expression pos = Some (Inl e)"
  by (intro expression_raises term_raises factor_raises power_raises)

lemma open_parentheses:
  "list_all (\<lambda>l. ttype l = LEFT_PAREN) opens \<Longrightarrow>
   run A (pre @ opens @ ys) Expression (length pre + length opens) = Some (Inl e) \<Longrightarrow>
   run A (pre @ opens @ ys) Expression (length pre) = Some (Inl e)"
proof (induction opens arbitrary: pre)
  case Nil
  then show ?case by simp
next
  case (Cons l opens)
  have ts: "pre @ (l # opens) @ ys = (pre @ [l]) @ opens @ ys"
    by simp
  have "run A ((pre @ [l]) @ opens @ ys) Expression (length (pre @ [l])) = Some (Inl e)"
    using Cons.prems by (intro Cons.IH) simp_all
  then have inner: "run A (pre @ (l # opens) @ ys) Expression (Suc (length pre)) = Some (Inl e)"
    unfolding ts by simp
  have "run A (pre @ (l # opens) @ ys) Primary (length pre) = Some (Inl e)"
    using Cons.prems(1) by (intro parenthesis_raises inner) simp_all
  then show ?case
    by (rule primary_raises)
qed

lemma at_cursor_Inr [simp]: "at_cursor (Inr v) q = Inr (v, q)"
  by (simp add: at_cursor_def)

lemma at_cursor_Inl [simp]: "at_cursor (Inl e) q = Inl e"
  by (simp add: at_cursor_def)

lemma and_then_Inr [simp]: "and_then (Inr v) k = k v"
  by (simp add: and_then_def)

lemma and_then_Inl [simp]: "and_then (Inl e) k = Some (Inl e)"
  by (simp add: and_then_def)

lemma primary_returns:
  assumes "run A ts Primary pos = Some (Inr (v, q))"
    and "\<not> (q < length ts \<and> ttype (ts ! q) \<in> {PLUS, MINUS, MULTIPLY, DIVIDE, MODULO, POWER})"
  shows "run A ts Expression pos = Some (Inr (v, q))"
proof -
  have P: "run A ts Primary pos = Some (at_cursor (Inr v) q)"
    using assms(1) by simp
  have "run A ts Power pos = Some (at_cursor (Inr v) q)"
    using assms(2) by (intro power_base[OF P]) simp
  then have "run A ts Factor pos = and_then (Inr v) (\<lambda>v. run A ts (Factor_loop v) q)"
    by (rule factor_start)
  then have "run A ts Factor pos = Some (at_cursor (Inr v) q)"
    using assms(2) by (intro factor_close) simp_all
  then have "run A ts Term pos = and_then (Inr v) (\<lambda>v. run A ts (Term_loop v) q)"
    by (rule term_start)
  then have "run A ts Term pos = Some (at_cursor (Inr v) q)"
    using assms(2) by (intro term_close) simp_all
  then show ?thesis
    by (simp add: run_Expression)
qed

lemma trailing_additive:
  assumes "wf_term t" "value_term A t = Inr v" "ttype op = PLUS \<or> ttype op = MINUS"
  shows "run A (pre @ tokens_term t @ [op]) Expression (length pre) = Some (Inl IndexError)"
proof -
  define ts where "ts = pre @ tokens_term t @ [op]"
  define q where "q = length pre + length (tokens_term t)"
  have nostart: "\<not> starts_with {POWER, MULTIPLY, DIVIDE, MODULO} [op]"
    using assms(3) by (auto simp: starts_with_def)
  have L: "run A ts Term (length pre) = run A ts (Term_loop v) q"
    unfolding ts_def q_def using parse_tree(4)[OF assms(1) nostart, of A pre]
    by (simp add: assms(2))
  have q: "q < length ts" "ts ! q = op" "length ts \<le> Suc q"
    by (simp_all add: ts_def q_def nth_append)
  have "run A ts Factor (Suc q) = Some (Inl IndexError)"
    by (rule rule_end[OF q(3)]) simp
  then have "run A ts (Term_loop v) q = Some (Inl IndexError)"
    using assms(3) by (intro term_loop_raises q(1)) (simp_all add: q(2))
  then show ?thesis
    unfolding ts_def[symmetric] by (simp add: run_Expression L)
qed

lemma trailing_multiplicative:
  assumes "wf_factor f" "value_factor A f = Inr v"
    and "ttype op = MULTIPLY \<or> ttype op = DIVIDE \<or> ttype op = MODULO"
  shows "run A (pre @ tokens_factor f @ [op]) Expression (length pre) = Some (Inl IndexError)"
proof -
  define ts where "ts = pre @ tokens_factor f @ [op]"
  define q where "q = length pre + length (tokens_factor f)"
  have nostart: "\<not> starts_with {POWER} [op]"
    using assms(3) by (auto simp: starts_with_def)
  have L: "run A ts Factor (length pre) = run A ts (Factor_loop v) q"
    unfolding ts_def q_def using parse_tree(3)[OF assms(1) nostart, of A pre]
    by (simp add: assms(2))
  have q: "q < length ts" "ts ! q = op" "length ts \<le> Suc q"
    by (simp_all add: ts_def q_def nth_append)
  have "run A ts Power (Suc q) = Some (Inl IndexError)"
    by (rule rule_end[OF q(3)]) simp
  then have "run A ts (Factor_loop v) q = Some (Inl IndexError)"
    using assms(3) by (intro factor_loop_raises q(1)) (simp_all add: q(2))
  then have "run A ts Factor (length pre) = Some (Inl IndexError)"
    by (simp add: L)
  then show ?thesis
    unfolding ts_def[symmetric] by (intro expression_raises term_raises)
qed

lemma trailing_power:
  assumes "wf_primary p" "value_primary A p = Inr v" "ttype op = POWER"
  shows "run A (pre @ tokens_primary p @ [op]) Expression (length pre) = Some (Inl IndexError)"
proof -
  define ts where "ts = pre @ tokens_primary p @ [op]"
  define q where "q = length pre + length (tokens_primary p)"
  have P: "run A ts Primary (length pre) = Some (Inr (v, q))"
    unfolding ts_def q_def using parse_tree(1)[OF assms(1), of A pre "[op]"]
    by (simp add: assms(2))
  have q: "q < length ts" "ttype (ts ! q) = POWER" "length ts \<le> Suc q"
    using assms(3) by (simp_all add: ts_def q_def nth_append)
  have "run A ts Power (Suc q) = Some (Inl IndexError)"
    by (rule rule_end[OF q(3)]) simp
  then have "run A ts Power (length pre) = Some (Inl IndexError)"
    by (rule power_right_raises[OF P q(1) q(2)])
  then show ?thesis
    unfolding ts_def[symmetric] by (intro expression_raises term_raises factor_raises)
qed

lemma opened_raises:
  assumes "list_all (\<lambda>l. ttype l = LEFT_PAREN) opens"
    and "run A (opens @ ys) Expression (length opens) = Some (Inl e)"
  shows "calculate A (opens @ ys) = Some (Inl e)"
  using open_parentheses[OF assms(1), of A "[]" ys e] assms(2)
  by (simp add: calculate_raises)

lemma unclosed_parenthesis:
  assumes "ttype l = LEFT_PAREN" "wf_term t"
    and "\<not> starts_with {PLUS, MINUS, MULTIPLY, DIVIDE, MODULO, POWER, RIGHT_PAREN} rest"
  shows "run A (pre @ l # tokens_term t @ rest) Expression (length pre) =
    Some (case value_term A t of
            Inl e \<Rightarrow> Inl e
          | Inr v \<Rightarrow> Inr (py_zero A, Suc (length pre + length (tokens_term t))))"
proof -
  define ts where "ts = pre @ l # tokens_term t @ rest"
  define q where "q = length (pre @ [l]) + length (tokens_term t)"
  have ts1: "ts = (pre @ [l]) @ tokens_term t @ rest"
    by (simp add: ts_def)
  have E: "run A ts Expression (length (pre @ [l])) = Some (at_cursor (value_term A t) q)"
    unfolding ts1 q_def by (rule expression_tree[OF assms(2) starts_with_mono[OF assms(3)]]) simp
  have p: "length pre < length ts" "ttype (ts ! length pre) = LEFT_PAREN"
    using assms(1) by (simp_all add: ts_def)
  have noclose: "\<not> (q < length ts \<and> ttype (ts ! q) \<in> {RIGHT_PAREN})"
    unfolding ts1 q_def next_token by (rule starts_with_mono[OF assms(3)]) simp
  have noop: "\<not> (q < length ts \<and> ttype (ts ! q) \<in> {PLUS, MINUS, MULTIPLY, DIVIDE, MODULO, POWER})"
    unfolding ts1 q_def next_token by (rule starts_with_mono[OF assms(3)]) simp
  show ?thesis
  proof (cases "value_term A t")
    case (Inl e)
    then have "run A ts Primary (length pre) = Some (Inl e)"
      using E by (intro parenthesis_raises p) simp
    then show ?thesis
      unfolding ts_def[symmetric] by (simp add: primary_raises Inl)
  next
    case (Inr v)
    then have "run A ts Primary (length pre) = Some (Inr (py_zero A, q))"
      using E noclose p by (simp add: primary_paren)
    then have "run A ts Expression (length pre) = Some (Inr (py_zero A, q))"
      using noop by (rule primary_returns)
    then show ?thesis
      unfolding ts_def[symmetric] by (simp add: Inr q_def)
  qed
qed

end
